theory Spec2Isabelle
  imports Main
begin

section \<open>SkillsForge: the skill loader (skill\_loader.py) and the lookup tool (skill\_tool.py)\<close>

text \<open>
  Text is modelled as \<open>string\<close>, one \<open>char\<close> per code point, so the development covers
  documents whose code points lie below 256. On that range Python's \<open>re.IGNORECASE\<close>
  relates an ASCII letter of a pattern to its two ASCII cases only, and \<open>\s\<close> and
  \<open>str.strip\<close> agree on the whitespace set written out in \<open>is_space\<close>.

  What the loader takes from outside the repository (the file system, pathlib, PyYAML,
  Python's \<open>str\<close> on a non-string value) is a field of the record \<open>env\<close>. The path
  operations are taken to return: \<open>Path.exists()\<close> answers for every path.
\<close>

subsection \<open>Characters and literal matching\<close>

definition NL :: char where
  "NL = CHR 0x0A"

definition BQ :: char where
  \<comment> \<open>the backquote, the inline-code delimiter of Markdown\<close>
  "BQ = CHR 0x60"

definition is_space :: "char \<Rightarrow> bool" where
  \<comment> \<open>\<open>\s\<close> of a str pattern and the characters \<open>str.strip()\<close> removes\<close>
  "is_space c =
     (let n = (of_char c :: nat)
      in (9 \<le> n \<and> n \<le> 13) \<or> (28 \<le> n \<and> n \<le> 32) \<or> n = 133 \<or> n = 160)"

definition is_upper_ascii :: "char \<Rightarrow> bool" where
  "is_upper_ascii c = (let n = (of_char c :: nat) in 65 \<le> n \<and> n \<le> 90)"

definition is_lower_ascii :: "char \<Rightarrow> bool" where
  "is_lower_ascii c = (let n = (of_char c :: nat) in 97 \<le> n \<and> n \<le> 122)"

definition is_digit :: "char \<Rightarrow> bool" where
  "is_digit c = (let n = (of_char c :: nat) in 48 \<le> n \<and> n \<le> 57)"

definition lower_ascii :: "char \<Rightarrow> char" where
  "lower_ascii c = (if is_upper_ascii c then char_of (of_char c + (32::nat)) else c)"

fun strip_prefix :: "string \<Rightarrow> string \<Rightarrow> string option" where
  \<comment> \<open>a literal of a pattern, case-sensitive: the text left after it\<close>
  "strip_prefix [] s = Some s"
| "strip_prefix (p # ps) [] = None"
| "strip_prefix (p # ps) (c # cs) = (if p = c then strip_prefix ps cs else None)"

fun strip_prefix_ci :: "string \<Rightarrow> string \<Rightarrow> string option" where
  \<comment> \<open>a literal of a pattern compiled with \<open>re.IGNORECASE\<close>\<close>
  "strip_prefix_ci [] s = Some s"
| "strip_prefix_ci (p # ps) [] = None"
| "strip_prefix_ci (p # ps) (c # cs) =
     (if lower_ascii p = lower_ascii c then strip_prefix_ci ps cs else None)"

fun first_alt :: "(string \<Rightarrow> string \<Rightarrow> string option) \<Rightarrow> string list \<Rightarrow> string
                    \<Rightarrow> (string \<times> string) option" where
  \<comment> \<open>an alternation \<open>a|b|c\<close> of literals, tried left to right: the text matched and the rest\<close>
  "first_alt lit [] s = None"
| "first_alt lit (a # as) s =
     (case lit a s of
        Some r \<Rightarrow> Some (take (length a) s, r)
      | None \<Rightarrow> first_alt lit as s)"

fun find_sub :: "string \<Rightarrow> string \<Rightarrow> (string \<times> string) option" where
  \<comment> \<open>the first occurrence of a literal: the text before it and the text after it\<close>
  "find_sub needle [] = (case strip_prefix needle [] of Some r \<Rightarrow> Some ([], r) | None \<Rightarrow> None)"
| "find_sub needle (c # cs) =
     (case strip_prefix needle (c # cs) of
        Some r \<Rightarrow> Some ([], r)
      | None \<Rightarrow> (case find_sub needle cs of
                   Some (b, a) \<Rightarrow> Some (c # b, a)
                 | None \<Rightarrow> None))"

definition strip :: "string \<Rightarrow> string" where
  \<comment> \<open>\<open>str.strip()\<close>\<close>
  "strip s = rev (dropWhile is_space (rev (dropWhile is_space s)))"

subsection \<open>Values built by \<open>yaml.safe_load\<close>, exceptions, the environment\<close>

text \<open>
  The header of a document is whatever \<open>yaml.safe_load\<close> builds from it: \<open>None\<close>, a
  boolean, an integer, a string, a list or a dict (floats, timestamps, binary data and
  sets are left out of this type). A dict is an association list in insertion order,
  with each key once.
\<close>

datatype yaml =
    YNull
  | YBool bool
  | YInt int
  | YStr string
  | YSeq "yaml list"
  | YMap "(yaml \<times> yaml) list"

datatype exn = YAMLError | TypeError | KeyError | AttributeError | OSError | UnicodeDecodeError

record env =
  read_text :: "string \<Rightarrow> exn + string"
    \<comment> \<open>\<open>Path.read_text(encoding="utf-8")\<close>\<close>
  yaml_safe_load :: "string \<Rightarrow> exn + yaml"
  path_parent :: "string \<Rightarrow> string"
    \<comment> \<open>\<open>Path.parent\<close>\<close>
  path_join :: "string \<Rightarrow> string \<Rightarrow> string"
    \<comment> \<open>\<open>str(skill_dir / rel)\<close>\<close>
  path_exists :: "string \<Rightarrow> bool"
    \<comment> \<open>\<open>Path.exists()\<close>\<close>
  dir_exists :: "string \<Rightarrow> bool"
    \<comment> \<open>\<open>skills_dir.exists()\<close>\<close>
  rglob_skill_md :: "string \<Rightarrow> string list"
    \<comment> \<open>\<open>skills_dir.rglob("SKILL.md")\<close>, in the order the file system yields\<close>
  str_of :: "yaml \<Rightarrow> string"
    \<comment> \<open>what an f-string prints for a value that is not a string\<close>

subsection \<open>Skill\<close>

record skill =
  name :: yaml
  description :: yaml
  content :: string
  license :: yaml
  allowed_tools :: yaml
  metadata :: yaml
  skill_path :: string

definition py_str :: "env \<Rightarrow> yaml \<Rightarrow> string" where
  \<comment> \<open>\<open>{v}\<close> in an f-string\<close>
  "py_str e v = (case v of YStr s \<Rightarrow> s | _ \<Rightarrow> str_of e v)"

definition to_prompt :: "env \<Rightarrow> skill \<Rightarrow> string" where
  "to_prompt e s =
     [NL] @ ''# Skill: '' @ py_str e (name s) @ [NL, NL]
     @ py_str e (description s) @ [NL, NL]
     @ ''---'' @ [NL, NL]
     @ content s @ [NL]"

subsection \<open>\<open>re.sub\<close> with a replacement function\<close>

text \<open>
  A matcher tries its pattern at the very start of a text and returns the groups and the
  text left after the match. \<open>re_sub\<close> is the scan of \<open>re.sub\<close>: at each position, from
  the left, a match is replaced by what the replacement function returns for it and the
  scan goes on after the match; where there is no match one character is copied. None
  of the three patterns below matches the empty string, so the scan ends with the text;
  the test on the lengths only makes the recursion well-founded and always succeeds for
  these matchers (\<open>suffix_match_dirs\<close>, \<open>suffix_match_docs\<close>, \<open>suffix_match_markdown\<close>).
\<close>

fun re_sub :: "(string \<Rightarrow> ('g \<times> string) option) \<Rightarrow> ('g \<Rightarrow> string \<Rightarrow> string) \<Rightarrow> string \<Rightarrow> string" where
  "re_sub m repl [] = []"
| "re_sub m repl (c # cs) =
     (case m (c # cs) of
        None \<Rightarrow> c # re_sub m repl cs
      | Some (g, rest) \<Rightarrow>
          (if length rest \<le> length cs
           then repl g (take (Suc (length cs) - length rest) (c # cs)) @ re_sub m repl rest
           else c # re_sub m repl cs))"

subsection \<open>Pattern 1: paths under scripts/, examples/, templates/, reference/\<close>

text \<open>
  \<^verbatim>\<open>(python\s+|`)((?:scripts|examples|templates|reference)/[^\s`\)]+)\<close>

  Every greedy repetition of this pattern is followed by something its own characters
  cannot start, so the longest run is the only one the regex engine can end on, and the
  alternatives of each alternation start with different characters: the first successful
  attempt is the only attempt that can succeed.
\<close>

definition dir_names :: "string list" where
  "dir_names = [''scripts'', ''examples'', ''templates'', ''reference'']"

definition is_path_char :: "char \<Rightarrow> bool" where
  \<comment> \<open>\<^verbatim>\<open>[^\s`\)]\<close>\<close>
  "is_path_char c = (\<not> is_space c \<and> c \<noteq> BQ \<and> c \<noteq> CHR '')'')"

definition dir_prefix :: "string \<Rightarrow> (string \<times> string) option" where
  \<comment> \<open>group 1, \<^verbatim>\<open>(python\s+|`)\<close>\<close>
  "dir_prefix s =
     (case (case strip_prefix ''python'' s of
              Some r \<Rightarrow> if takeWhile is_space r = [] then None
                        else Some (''python'' @ takeWhile is_space r, dropWhile is_space r)
            | None \<Rightarrow> None) of
        Some x \<Rightarrow> Some x
      | None \<Rightarrow> (case s of
                   [] \<Rightarrow> None
                 | c # r \<Rightarrow> if c = BQ then Some ([BQ], r) else None))"

definition match_dirs :: "string \<Rightarrow> ((string \<times> string) \<times> string) option" where
  "match_dirs s =
     (case dir_prefix s of
        None \<Rightarrow> None
      | Some (prefix, r) \<Rightarrow>
          (case first_alt strip_prefix dir_names r of
             None \<Rightarrow> None
           | Some (d, r2) \<Rightarrow>
               (case strip_prefix ''/'' r2 of
                  None \<Rightarrow> None
                | Some r3 \<Rightarrow>
                    if takeWhile is_path_char r3 = [] then None
                    else Some ((prefix, d @ ''/'' @ takeWhile is_path_char r3),
                               dropWhile is_path_char r3))))"

definition replace_dir_path :: "env \<Rightarrow> string \<Rightarrow> string \<times> string \<Rightarrow> string \<Rightarrow> string" where
  "replace_dir_path e skill_dir g whole =
     (case g of (prefix, rel_path) \<Rightarrow>
        (let abs_path = path_join e skill_dir rel_path
         in if path_exists e abs_path then prefix @ abs_path else whole))"

subsection \<open>Pattern 2: a verb and a bare file name\<close>

text \<open>
  \<^verbatim>\<open>(see|read|refer to|check)\s+([a-zA-Z0-9_-]+\.(?:md|txt|json|yaml))([.,;\s])\<close>,
  with \<open>re.IGNORECASE\<close>. The whitespace after the verb belongs to no group. As in
  pattern 1, no repetition can end earlier than its longest run and no two alternatives
  start alike.
\<close>

definition doc_verbs :: "string list" where
  "doc_verbs = [''see'', ''read'', ''refer to'', ''check'']"

definition doc_exts :: "string list" where
  "doc_exts = [''md'', ''txt'', ''json'', ''yaml'']"

definition is_name_char :: "char \<Rightarrow> bool" where
  \<comment> \<open>\<^verbatim>\<open>[a-zA-Z0-9_-]\<close>\<close>
  "is_name_char c =
     (is_lower_ascii c \<or> is_upper_ascii c \<or> is_digit c \<or> c = CHR ''_'' \<or> c = CHR ''-'')"

definition is_doc_suffix :: "char \<Rightarrow> bool" where
  \<comment> \<open>\<^verbatim>\<open>[.,;\s]\<close>\<close>
  "is_doc_suffix c = (c = CHR ''.'' \<or> c = CHR '','' \<or> c = CHR '';'' \<or> is_space c)"

definition match_docs :: "string \<Rightarrow> ((string \<times> string \<times> string) \<times> string) option" where
  "match_docs s =
     (case first_alt strip_prefix_ci doc_verbs s of
        None \<Rightarrow> None
      | Some (verb, r) \<Rightarrow>
          if takeWhile is_space r = [] then None
          else (let r2 = dropWhile is_space r
                in if takeWhile is_name_char r2 = [] then None
                   else (case strip_prefix ''.'' (dropWhile is_name_char r2) of
                           None \<Rightarrow> None
                         | Some r4 \<Rightarrow>
                             (case first_alt strip_prefix_ci doc_exts r4 of
                                None \<Rightarrow> None
                              | Some (ext, r5) \<Rightarrow>
                                  (case r5 of
                                     [] \<Rightarrow> None
                                   | c # r6 \<Rightarrow>
                                       if is_doc_suffix c
                                       then Some ((verb, takeWhile is_name_char r2 @ ''.'' @ ext, [c]), r6)
                                       else None)))))"

definition usage_hint :: string where
  "usage_hint = '' (use read_file to access)''"

definition replace_doc_path :: "env \<Rightarrow> string \<Rightarrow> string \<times> string \<times> string \<Rightarrow> string \<Rightarrow> string" where
  "replace_doc_path e skill_dir g whole =
     (case g of (prefix, filename, suffix) \<Rightarrow>
        (let abs_path = path_join e skill_dir filename
         in if path_exists e abs_path
            then prefix @ [BQ] @ abs_path @ [BQ] @ usage_hint @ suffix
            else whole))"

subsection \<open>Pattern 3: Markdown links\<close>

text \<open>
  \<^verbatim>\<open>(?:(Read|See|Check|Refer to|Load|View)\s+)?\[(`?[^`\]]+`?)\]\(((?:\./)?[^)]+\.(?:md|txt|json|yaml|js|py|html))\)\<close>,
  with \<open>re.IGNORECASE\<close>.

  The link text is an optional backquote, the longest run of characters other than a
  backquote and \<open>]\<close>, and an optional backquote: a shorter run would be followed by one of
  its own characters where \<open>]\<close> or a backquote must stand. The target \<open>[^)]+\<close> cannot
  cross a \<open>)\<close> and is followed by \<open>)\<close>, so group 3 is the whole text up to the first \<open>)\<close>;
  that text must end in a dot and one of the extensions with at least one character
  before the dot (the optional \<open>./\<close> is then part of it or not, the group is the same).
  The optional lead verb is tried first and the link without it second.
\<close>

definition link_verbs :: "string list" where
  "link_verbs = [''Read'', ''See'', ''Check'', ''Refer to'', ''Load'', ''View'']"

definition link_exts :: "string list" where
  "link_exts = [''md'', ''txt'', ''json'', ''yaml'', ''js'', ''py'', ''html'']"

definition is_text_char :: "char \<Rightarrow> bool" where
  \<comment> \<open>\<^verbatim>\<open>[^`\]]\<close>\<close>
  "is_text_char c = (c \<noteq> BQ \<and> c \<noteq> CHR '']'')"

definition is_target_char :: "char \<Rightarrow> bool" where
  \<comment> \<open>\<^verbatim>\<open>[^)]\<close>\<close>
  "is_target_char c = (c \<noteq> CHR '')'')"

definition opt_bq :: "string \<Rightarrow> string \<times> string" where
  \<comment> \<open>an optional backquote, taken when it is there\<close>
  "opt_bq s = (case s of [] \<Rightarrow> ([], s) | c # r \<Rightarrow> if c = BQ then ([BQ], r) else ([], s))"

definition has_link_ext :: "string \<Rightarrow> bool" where
  \<comment> \<open>\<^verbatim>\<open>(?:\./)?[^)]+\.(?:md|txt|json|yaml|js|py|html)\<close> on a whole text without \<open>)\<close>\<close>
  "has_link_ext q =
     list_ex (\<lambda>ext. case strip_prefix_ci (rev (''.'' @ ext)) (rev q) of
                      Some stem \<Rightarrow> stem \<noteq> []
                    | None \<Rightarrow> False) link_exts"

definition link_body :: "string \<Rightarrow> ((string \<times> string) \<times> string) option" where
  \<comment> \<open>from \<open>[\<close> on: groups 2 and 3\<close>
  "link_body s =
     (case strip_prefix ''['' s of
        None \<Rightarrow> None
      | Some r \<Rightarrow>
          (case opt_bq r of (b1, r1) \<Rightarrow>
             if takeWhile is_text_char r1 = [] then None
             else (case opt_bq (dropWhile is_text_char r1) of (b2, r2) \<Rightarrow>
                     (case strip_prefix '']('' r2 of
                        None \<Rightarrow> None
                      | Some r3 \<Rightarrow>
                          (case strip_prefix '')'' (dropWhile is_target_char r3) of
                             None \<Rightarrow> None
                           | Some r4 \<Rightarrow>
                               if has_link_ext (takeWhile is_target_char r3)
                               then Some ((b1 @ takeWhile is_text_char r1 @ b2,
                                           takeWhile is_target_char r3), r4)
                               else None)))))"

definition match_markdown :: "string \<Rightarrow> ((string option \<times> string \<times> string) \<times> string) option" where
  "match_markdown s =
     (case (case first_alt strip_prefix_ci link_verbs s of
              None \<Rightarrow> None
            | Some (verb, r) \<Rightarrow>
                if takeWhile is_space r = [] then None
                else (case link_body (dropWhile is_space r) of
                        None \<Rightarrow> None
                      | Some ((t, q), rest) \<Rightarrow> Some ((Some verb, t, q), rest))) of
        Some x \<Rightarrow> Some x
      | None \<Rightarrow> (case link_body s of
                   None \<Rightarrow> None
                 | Some ((t, q), rest) \<Rightarrow> Some ((None, t, q), rest)))"

definition replace_markdown_link ::
    "env \<Rightarrow> string \<Rightarrow> string option \<times> string \<times> string \<Rightarrow> string \<Rightarrow> string" where
  "replace_markdown_link e skill_dir g whole =
     (case g of (g1, link_text, filepath) \<Rightarrow>
        (let prefix = (case g1 of None \<Rightarrow> [] | Some v \<Rightarrow> v);
             clean_path = (case strip_prefix ''./'' filepath of Some p \<Rightarrow> p | None \<Rightarrow> filepath);
             abs_path = path_join e skill_dir clean_path
         in if path_exists e abs_path
            then prefix @ ''['' @ link_text @ '']('' @ [BQ] @ abs_path @ [BQ] @ '')'' @ usage_hint
            else whole))"

subsection \<open>The Reference Rewriter\<close>

definition pass_dirs :: "env \<Rightarrow> string \<Rightarrow> string \<Rightarrow> string" where
  "pass_dirs e skill_dir = re_sub match_dirs (replace_dir_path e skill_dir)"

definition pass_docs :: "env \<Rightarrow> string \<Rightarrow> string \<Rightarrow> string" where
  "pass_docs e skill_dir = re_sub match_docs (replace_doc_path e skill_dir)"

definition pass_markdown :: "env \<Rightarrow> string \<Rightarrow> string \<Rightarrow> string" where
  "pass_markdown e skill_dir = re_sub match_markdown (replace_markdown_link e skill_dir)"

definition process_skill_paths :: "env \<Rightarrow> string \<Rightarrow> string \<Rightarrow> string" where
  "process_skill_paths e skill_dir txt =
     pass_markdown e skill_dir (pass_docs e skill_dir (pass_dirs e skill_dir txt))"

subsection \<open>\<open>SkillLoader.load_skill\<close>\<close>

text \<open>
  \<open>load_skill\<close> returns a Skill or \<open>None\<close>; before each \<open>return None\<close> it prints one of
  four messages, and the message is the failure here: "missing YAML frontmatter" is
  \<open>MissingHeader\<close>, "Failed to parse YAML frontmatter" is \<open>InvalidHeaderSyntax\<close>,
  "missing required fields (name or description)" is \<open>MissingRequiredField\<close>, and
  "Failed to load skill", printed by the handler of the enclosing \<open>try\<close>, is \<open>LoadFailed\<close>
  with the exception caught. A result \<open>Inl\<close> is an exception that leaves the function.
\<close>

datatype failure = MissingHeader | InvalidHeaderSyntax | MissingRequiredField | LoadFailed exn

datatype load_result = Loaded skill | Failed failure

definition match_frontmatter :: "string \<Rightarrow> (string \<times> string) option" where
  \<comment> \<open>\<^verbatim>\<open>re.match(r"^---\n(.*?)\n---\n(.*)$", content, re.DOTALL)\<close>: groups 1 and 2. The lazy
      group 1 ends at the first place where the closing delimiter follows; group 2 is all
      the text after it.\<close>
  "match_frontmatter txt =
     (case strip_prefix (''---'' @ [NL]) txt of
        None \<Rightarrow> None
      | Some r \<Rightarrow> find_sub ([NL] @ ''---'' @ [NL]) r)"

definition py_in :: "string \<Rightarrow> yaml \<Rightarrow> exn + bool" where
  \<comment> \<open>\<open>key in v\<close> for a string \<open>key\<close>: a key of a dict, an element of a list, a substring
      of a string; \<open>TypeError\<close> on a value that is not iterable\<close>
  "py_in key v =
     (case v of
        YMap kvs \<Rightarrow> Inr (YStr key \<in> set (map fst kvs))
      | YSeq xs \<Rightarrow> Inr (YStr key \<in> set xs)
      | YStr s \<Rightarrow> Inr (find_sub key s \<noteq> None)
      | _ \<Rightarrow> Inl TypeError)"

definition py_getitem :: "yaml \<Rightarrow> string \<Rightarrow> exn + yaml" where
  \<comment> \<open>\<open>v[key]\<close> for a string \<open>key\<close>\<close>
  "py_getitem v key =
     (case v of
        YMap kvs \<Rightarrow> (case map_of kvs (YStr key) of None \<Rightarrow> Inl KeyError | Some x \<Rightarrow> Inr x)
      | _ \<Rightarrow> Inl TypeError)"

definition py_get :: "yaml \<Rightarrow> string \<Rightarrow> exn + yaml" where
  \<comment> \<open>\<open>v.get(key)\<close>\<close>
  "py_get v key =
     (case v of
        YMap kvs \<Rightarrow> (case map_of kvs (YStr key) of None \<Rightarrow> Inr YNull | Some x \<Rightarrow> Inr x)
      | _ \<Rightarrow> Inl AttributeError)"

definition missing_required :: "yaml \<Rightarrow> exn + bool" where
  \<comment> \<open>\<open>"name" not in frontmatter or "description" not in frontmatter\<close>\<close>
  "missing_required fm =
     (case py_in ''name'' fm of
        Inl ex \<Rightarrow> Inl ex
      | Inr b1 \<Rightarrow>
          if \<not> b1 then Inr True
          else (case py_in ''description'' fm of
                  Inl ex \<Rightarrow> Inl ex
                | Inr b2 \<Rightarrow> Inr (\<not> b2)))"

definition build_skill :: "string \<Rightarrow> yaml \<Rightarrow> string \<Rightarrow> exn + load_result" where
  \<comment> \<open>the call \<open>Skill(name=frontmatter["name"], ...)\<close>, arguments evaluated in order\<close>
  "build_skill p fm processed_content =
     (case py_getitem fm ''name'' of
        Inl ex \<Rightarrow> Inl ex
      | Inr n \<Rightarrow>
     (case py_getitem fm ''description'' of
        Inl ex \<Rightarrow> Inl ex
      | Inr d \<Rightarrow>
     (case py_get fm ''license'' of
        Inl ex \<Rightarrow> Inl ex
      | Inr l \<Rightarrow>
     (case py_get fm ''allowed-tools'' of
        Inl ex \<Rightarrow> Inl ex
      | Inr a \<Rightarrow>
     (case py_get fm ''metadata'' of
        Inl ex \<Rightarrow> Inl ex
      | Inr m \<Rightarrow>
          Inr (Loaded \<lparr>name = n, description = d, content = processed_content, license = l,
                       allowed_tools = a, metadata = m, skill_path = p\<rparr>))))))"

definition load_skill_try :: "env \<Rightarrow> string \<Rightarrow> exn + load_result" where
  \<comment> \<open>the body of the \<open>try\<close>\<close>
  "load_skill_try e p =
     (case read_text e p of
        Inl ex \<Rightarrow> Inl ex
      | Inr txt \<Rightarrow>
          (case match_frontmatter txt of
             None \<Rightarrow> Inr (Failed MissingHeader)
           | Some (frontmatter_text, body) \<Rightarrow>
               (let skill_content = strip body
                in (case yaml_safe_load e frontmatter_text of
                      Inl ex \<Rightarrow> if ex = YAMLError then Inr (Failed InvalidHeaderSyntax) else Inl ex
                    | Inr fm \<Rightarrow>
                        (case missing_required fm of
                           Inl ex \<Rightarrow> Inl ex
                         | Inr missing \<Rightarrow>
                             if missing then Inr (Failed MissingRequiredField)
                             else build_skill p fm
                                    (process_skill_paths e (path_parent e p) skill_content))))))"

definition load_skill :: "env \<Rightarrow> string \<Rightarrow> exn + load_result" where
  \<comment> \<open>\<open>except Exception\<close> around the whole body\<close>
  "load_skill e p =
     (case load_skill_try e p of
        Inl ex \<Rightarrow> Inr (Failed (LoadFailed ex))
      | Inr r \<Rightarrow> Inr r)"

definition opens_with_header_block :: "string \<Rightarrow> bool" where
  \<comment> \<open>The specification's words: a line containing only \<open>---\<close>, header text, a second
      \<open>---\<close> line, then the body.\<close>
  "opens_with_header_block txt =
     (\<exists>header body. txt = ''---'' @ [NL] @ header @ [NL] @ ''---'' @ [NL] @ body)"

subsection \<open>The catalog: \<open>discover_skills\<close>, \<open>get_skill\<close>, \<open>list_skills\<close>\<close>

text \<open>
  \<open>loaded_skills\<close> is a Python dict: keys in insertion order, compared by \<open>==\<close> (where
  \<open>True == 1\<close> and \<open>False == 0\<close>); storing under a key that is there keeps the old key
  and its place and replaces the value; a list or a dict as key raises \<open>TypeError\<close>.
\<close>

record loader =
  skills_dir :: string
  loaded_skills :: "(yaml \<times> skill) list"

definition hashable :: "yaml \<Rightarrow> bool" where
  "hashable v = (case v of YSeq _ \<Rightarrow> False | YMap _ \<Rightarrow> False | _ \<Rightarrow> True)"

definition key_norm :: "yaml \<Rightarrow> yaml" where
  \<comment> \<open>one representative of each class of \<open>==\<close> among the hashable values\<close>
  "key_norm v = (case v of YBool b \<Rightarrow> YInt (if b then 1 else 0) | _ \<Rightarrow> v)"

definition py_eq :: "yaml \<Rightarrow> yaml \<Rightarrow> bool" where
  "py_eq a b = (key_norm a = key_norm b)"

fun dict_put :: "(yaml \<times> 'v) list \<Rightarrow> yaml \<Rightarrow> 'v \<Rightarrow> (yaml \<times> 'v) list" where
  "dict_put [] k v = [(k, v)]"
| "dict_put ((k', v') # d) k v =
     (if py_eq k' k then (k', v) # d else (k', v') # dict_put d k v)"

definition dict_setitem :: "(yaml \<times> 'v) list \<Rightarrow> yaml \<Rightarrow> 'v \<Rightarrow> exn + (yaml \<times> 'v) list" where
  \<comment> \<open>\<open>d[k] = v\<close>\<close>
  "dict_setitem d k v = (if hashable k then Inr (dict_put d k v) else Inl TypeError)"

fun dict_get :: "(yaml \<times> 'v) list \<Rightarrow> yaml \<Rightarrow> 'v option" where
  \<comment> \<open>\<open>d.get(k)\<close> for a hashable \<open>k\<close>\<close>
  "dict_get [] k = None"
| "dict_get ((k', v') # d) k = (if py_eq k' k then Some v' else dict_get d k)"

fun discover_loop ::
    "env \<Rightarrow> string list \<Rightarrow> skill list \<Rightarrow> (yaml \<times> skill) list
       \<Rightarrow> (exn + skill list) \<times> (yaml \<times> skill) list" where
  \<comment> \<open>the \<open>for\<close> loop over the files found; an exception ends it and leaves the dict as it is\<close>
  "discover_loop e [] skills d = (Inr skills, d)"
| "discover_loop e (skill_file # files) skills d =
     (case load_skill e skill_file of
        Inl ex \<Rightarrow> (Inl ex, d)
      | Inr (Failed f) \<Rightarrow> discover_loop e files skills d
      | Inr (Loaded s) \<Rightarrow>
          (case dict_setitem d (name s) s of
             Inl ex \<Rightarrow> (Inl ex, d)
           | Inr d' \<Rightarrow> discover_loop e files (skills @ [s]) d'))"

definition discover_skills :: "env \<Rightarrow> loader \<Rightarrow> (exn + skill list) \<times> loader" where
  "discover_skills e L =
     (if \<not> dir_exists e (skills_dir L) then (Inr [], L)
      else (case discover_loop e (rglob_skill_md e (skills_dir L)) [] (loaded_skills L) of
              (r, d) \<Rightarrow> (r, L\<lparr>loaded_skills := d\<rparr>)))"

definition new_loader :: "string \<Rightarrow> loader" where
  \<comment> \<open>\<open>SkillLoader.__init__\<close>\<close>
  "new_loader dir = \<lparr>skills_dir = dir, loaded_skills = []\<rparr>"

definition get_skill :: "loader \<Rightarrow> string \<Rightarrow> skill option" where
  "get_skill L nm = dict_get (loaded_skills L) (YStr nm)"

definition list_skills :: "loader \<Rightarrow> yaml list" where
  "list_skills L = map fst (loaded_skills L)"

subsection \<open>The summary: \<open>get_skills_metadata_prompt\<close>\<close>

fun join :: "string \<Rightarrow> string list \<Rightarrow> string" where
  \<comment> \<open>\<open>sep.join(parts)\<close> on strings\<close>
  "join sep [] = []"
| "join sep [x] = x"
| "join sep (x # y # ys) = x @ sep @ join sep (y # ys)"

definition preamble_parts :: "string list" where
  "preamble_parts =
     [''## Available Skills'' @ [NL],
      ''You have access to specialized skills. Each skill provides expert guidance for specific tasks.'' @ [NL],
      ''Load a skill's full content using the appropriate skill tool when needed.'' @ [NL]]"

definition skill_line :: "env \<Rightarrow> skill \<Rightarrow> string" where
  \<comment> \<open>\<^verbatim>\<open>f"- `{skill.name}`: {skill.description}"\<close>\<close>
  "skill_line e s = ''- '' @ [BQ] @ py_str e (name s) @ [BQ] @ '': '' @ py_str e (description s)"

definition get_skills_metadata_prompt :: "env \<Rightarrow> loader \<Rightarrow> string" where
  "get_skills_metadata_prompt e L =
     (if loaded_skills L = [] then []
      else join [NL] (preamble_parts @ map (skill_line e) (map snd (loaded_skills L))))"

subsection \<open>The lookup tool: \<open>GetSkillTool.execute\<close>\<close>

text \<open>
  \<open>ToolResult\<close> comes from a module outside the sources at hand; it is taken as the record
  of the three fields the tool fills in. The two fixed fragments of the not-found message
  are written in Chinese, outside the code points of this model: they stand here as their
  UTF-8 bytes, and nothing below depends on what they are.
\<close>

record tool_result =
  tr_success :: bool
  tr_content :: string
  tr_error :: "string option"

definition err_head :: string where
  "err_head = [CHR 0xE6, CHR 0x8A, CHR 0x80, CHR 0xE8, CHR 0x83, CHR 0xBD, CHR 0x20, CHR 0x27]"

definition err_mid :: string where
  "err_mid = [CHR 0x27, CHR 0x20, CHR 0xE4, CHR 0xB8, CHR 0x8D, CHR 0xE5, CHR 0xAD, CHR 0x98,
              CHR 0xE5, CHR 0x9C, CHR 0xA8, CHR 0xE3, CHR 0x80, CHR 0x82, CHR 0xE5, CHR 0x8F,
              CHR 0xAF, CHR 0xE7, CHR 0x94, CHR 0xA8, CHR 0xE6, CHR 0x8A, CHR 0x80, CHR 0xE8,
              CHR 0x83, CHR 0xBD, CHR 0xEF, CHR 0xBC, CHR 0x9A]"

fun str_items :: "yaml list \<Rightarrow> exn + string list" where
  \<comment> \<open>\<open>str.join\<close> takes strings only: \<open>TypeError\<close> on any other item\<close>
  "str_items [] = Inr []"
| "str_items (v # vs) =
     (case v of
        YStr s \<Rightarrow> (case str_items vs of Inl ex \<Rightarrow> Inl ex | Inr ss \<Rightarrow> Inr (s # ss))
      | _ \<Rightarrow> Inl TypeError)"

definition py_join :: "string \<Rightarrow> yaml list \<Rightarrow> exn + string" where
  "py_join sep vs = (case str_items vs of Inl ex \<Rightarrow> Inl ex | Inr ss \<Rightarrow> Inr (join sep ss))"

definition execute :: "env \<Rightarrow> loader \<Rightarrow> string \<Rightarrow> exn + tool_result" where
  "execute e L skill_name =
     (case get_skill L skill_name of
        None \<Rightarrow>
          (case py_join '', '' (list_skills L) of
             Inl ex \<Rightarrow> Inl ex
           | Inr available \<Rightarrow>
               Inr \<lparr>tr_success = False, tr_content = [],
                    tr_error = Some (err_head @ skill_name @ err_mid @ available)\<rparr>)
      | Some s \<Rightarrow> Inr \<lparr>tr_success = True, tr_content = to_prompt e s, tr_error = None\<rparr>)"

subsection \<open>Notions the statements below use\<close>

definition is_loaded :: "exn + load_result \<Rightarrow> bool" where
  "is_loaded r = (case r of Inr (Loaded s) \<Rightarrow> True | _ \<Rightarrow> False)"

definition loaded_of :: "env \<Rightarrow> string list \<Rightarrow> skill list" where
  \<comment> \<open>the Skills of the documents that parse, in the order of the documents\<close>
  "loaded_of e files =
     concat (map (\<lambda>f. case load_skill e f of Inr (Loaded s) \<Rightarrow> [s] | _ \<Rightarrow> []) files)"

definition malformed :: "env \<Rightarrow> string list \<Rightarrow> string list" where
  \<comment> \<open>the documents that fail to parse\<close>
  "malformed e files = filter (\<lambda>f. \<not> is_loaded (load_skill e f)) files"

definition index_all :: "(yaml \<times> skill) list \<Rightarrow> skill list \<Rightarrow> (yaml \<times> skill) list" where
  \<comment> \<open>storing Skills under their names, one after the other\<close>
  "index_all d ss = foldl (\<lambda>d s. dict_put d (name s) s) d ss"

fun firsts :: "yaml list \<Rightarrow> yaml list \<Rightarrow> yaml list" where
  \<comment> \<open>the names not seen before, each at its first occurrence\<close>
  "firsts seen [] = []"
| "firsts seen (k # ks) =
     (if list_ex (\<lambda>k'. py_eq k' k) seen then firsts seen ks
      else k # firsts (seen @ [k]) ks)"

definition header_of :: "env \<Rightarrow> string \<Rightarrow> yaml option" where
  \<comment> \<open>the value \<open>yaml.safe_load\<close> builds from the header block of a document, when the
      document can be read, has a header block and the block is valid YAML\<close>
  "header_of e p =
     (case read_text e p of
        Inl ex \<Rightarrow> None
      | Inr doc \<Rightarrow>
          (case match_frontmatter doc of
             None \<Rightarrow> None
           | Some (h, b) \<Rightarrow>
               (case yaml_safe_load e h of Inl ex \<Rightarrow> None | Inr fm \<Rightarrow> Some fm)))"

subsection \<open>A small file system for the concrete cases\<close>

definition example_env :: "(string \<times> string) list \<Rightarrow> (string \<times> yaml) list \<Rightarrow> string list \<Rightarrow> env" where
  \<comment> \<open>\<open>docs\<close>: the SKILL.md files and their text, in the order \<open>rglob\<close> yields them;
      \<open>headers\<close>: what \<open>yaml.safe_load\<close> builds from each header text;
      \<open>existing\<close>: the paths that exist\<close>
  "example_env docs headers existing =
     \<lparr>read_text = (\<lambda>p. case map_of docs p of Some t \<Rightarrow> Inr t | None \<Rightarrow> Inl OSError),
      yaml_safe_load = (\<lambda>h. case map_of headers h of Some v \<Rightarrow> Inr v | None \<Rightarrow> Inl YAMLError),
      path_parent = (\<lambda>p. rev (drop 1 (dropWhile (\<lambda>c. c \<noteq> CHR ''/'') (rev p)))),
      path_join = (\<lambda>d r. d @ ''/'' @ r),
      path_exists = (\<lambda>p. p \<in> set existing),
      dir_exists = (\<lambda>d. True),
      rglob_skill_md = (\<lambda>d. map fst docs),
      str_of = (\<lambda>v. ''None'')\<rparr>"

definition doc_of :: "string \<Rightarrow> string \<Rightarrow> string" where
  \<comment> \<open>a document with the given header text and body\<close>
  "doc_of header body = ''---'' @ [NL] @ header @ [NL] @ ''---'' @ [NL] @ body"

definition empty_name_header :: string where
  \<comment> \<open>a header giving \<open>name\<close> the empty string\<close>
  "empty_name_header = ''name: '' @ [CHR 0x22, CHR 0x22] @ [NL] @ ''description: Does A''"

definition empty_name_env :: env where
  "empty_name_env =
     example_env [(''/r/a/SKILL.md'', doc_of empty_name_header ''Body'')]
       [(empty_name_header, YMap [(YStr ''name'', YStr ''''), (YStr ''description'', YStr ''Does A'')])]
       []"

definition no_description_env :: env where
  "no_description_env =
     example_env [(''/r/b/SKILL.md'', doc_of ''name: beta'' ''Body'')]
       [(''name: beta'', YMap [(YStr ''name'', YStr ''beta'')])]
       []"

definition dup_env :: env where
  "dup_env =
     example_env
       [(''/r/a/SKILL.md'', doc_of (''name: x'' @ [NL] @ ''description: first'') ''Body one''),
        (''/r/b/SKILL.md'', doc_of (''name: x'' @ [NL] @ ''description: second'') ''Body two'')]
       [(''name: x'' @ [NL] @ ''description: first'',
           YMap [(YStr ''name'', YStr ''x''), (YStr ''description'', YStr ''first'')]),
        (''name: x'' @ [NL] @ ''description: second'',
           YMap [(YStr ''name'', YStr ''x''), (YStr ''description'', YStr ''second'')])]
       []"

definition dup_first :: skill where
  "dup_first = \<lparr>name = YStr ''x'', description = YStr ''first'', content = ''Body one'',
                 license = YNull, allowed_tools = YNull, metadata = YNull,
                 skill_path = ''/r/a/SKILL.md''\<rparr>"

definition dup_second :: skill where
  "dup_second = \<lparr>name = YStr ''x'', description = YStr ''second'', content = ''Body two'',
                  license = YNull, allowed_tools = YNull, metadata = YNull,
                  skill_path = ''/r/b/SKILL.md''\<rparr>"

definition null_name_env :: env where
  "null_name_env =
     example_env
       [(''/r/a/SKILL.md'', doc_of (''name:'' @ [NL] @ ''description: Does A'') ''Body'')]
       [(''name:'' @ [NL] @ ''description: Does A'',
           YMap [(YStr ''name'', YNull), (YStr ''description'', YStr ''Does A'')])]
       []"

definition scenario_env :: env where
  \<comment> \<open>\<open>a/SKILL.md\<close> (alpha, with the script \<open>scripts/run.py\<close>) and \<open>b/SKILL.md\<close> (no description)\<close>
  "scenario_env =
     example_env
       [(''/r/a/SKILL.md'', doc_of (''name: alpha'' @ [NL] @ ''description: Does A'')
                                   ''Run python scripts/run.py''),
        (''/r/b/SKILL.md'', doc_of ''name: beta'' ''Body'')]
       [(''name: alpha'' @ [NL] @ ''description: Does A'',
           YMap [(YStr ''name'', YStr ''alpha''), (YStr ''description'', YStr ''Does A'')]),
        (''name: beta'', YMap [(YStr ''name'', YStr ''beta'')])]
       [''/r/a/scripts/run.py'']"

definition alpha :: skill where
  "alpha = \<lparr>name = YStr ''alpha'', description = YStr ''Does A'',
             content = ''Run python /r/a/scripts/run.py'',
             license = YNull, allowed_tools = YNull, metadata = YNull,
             skill_path = ''/r/a/SKILL.md''\<rparr>"

definition null_named :: skill where
  "null_named = \<lparr>name = YNull, description = YStr ''Does A'', content = ''Body'',
                 license = YNull, allowed_tools = YNull, metadata = YNull,
                 skill_path = ''/r/a/SKILL.md''\<rparr>"

subsection \<open>What a pass of \<open>re.sub\<close> finds\<close>

text \<open>
  The scan of \<open>re_sub\<close> cuts a text into the characters it copies and the references it
  finds (the groups and the text of each match), in order.
\<close>

datatype 'g seg = Copied char | Ref 'g string

fun scan :: "(string \<Rightarrow> ('g \<times> string) option) \<Rightarrow> string \<Rightarrow> 'g seg list" where
  "scan m [] = []"
| "scan m (c # cs) =
     (case m (c # cs) of
        None \<Rightarrow> Copied c # scan m cs
      | Some (g, rest) \<Rightarrow>
          (if length rest \<le> length cs
           then Ref g (take (Suc (length cs) - length rest) (c # cs)) # scan m rest
           else Copied c # scan m cs))"

fun seg_src :: "'g seg \<Rightarrow> string" where
  \<comment> \<open>the piece of the text a segment stands for\<close>
  "seg_src (Copied c) = [c]"
| "seg_src (Ref g w) = w"

fun seg_out :: "('g \<Rightarrow> string \<Rightarrow> string) \<Rightarrow> 'g seg \<Rightarrow> string" where
  \<comment> \<open>what the pass writes for a segment\<close>
  "seg_out repl (Copied c) = [c]"
| "seg_out repl (Ref g w) = repl g w"

definition dir_target :: "env \<Rightarrow> string \<Rightarrow> string \<times> string \<Rightarrow> string" where
  \<comment> \<open>the path whose existence decides a reference of pattern 1\<close>
  "dir_target e skill_dir g = path_join e skill_dir (snd g)"

definition doc_target :: "env \<Rightarrow> string \<Rightarrow> string \<times> string \<times> string \<Rightarrow> string" where
  "doc_target e skill_dir g = path_join e skill_dir (fst (snd g))"

definition link_target :: "env \<Rightarrow> string \<Rightarrow> string option \<times> string \<times> string \<Rightarrow> string" where
  "link_target e skill_dir g =
     path_join e skill_dir
       (case strip_prefix ''./'' (snd (snd g)) of Some p \<Rightarrow> p | None \<Rightarrow> snd (snd g))"

definition suffix_matcher :: "(string \<Rightarrow> ('g \<times> string) option) \<Rightarrow> bool" where
  \<comment> \<open>a match is a non-empty piece at the start of the text, and the rest is what follows it\<close>
  "suffix_matcher m = (\<forall>s g rest. m s = Some (g, rest) \<longrightarrow> (\<exists>w. w \<noteq> [] \<and> s = w @ rest))"

definition rw_env :: env where
  \<comment> \<open>a skill directory \<open>/s\<close> holding \<open>scripts/run.py\<close>, \<open>scripts/python\<close> and \<open>a.md\<close>\<close>
  "rw_env = example_env [] [] [''/s/scripts/run.py'', ''/s/scripts/python'', ''/s/a.md'']"


definition overlap_text :: string where
  \<comment> \<open>\<^verbatim>\<open>`scripts/python scripts/run.py`\<close>\<close>
  "overlap_text = [BQ] @ ''scripts/python scripts/run.py'' @ [BQ]"

definition discovered :: "env \<Rightarrow> loader \<Rightarrow> skill list" where
  \<comment> \<open>the Skills of the documents under the root that parse, in the order the documents
      are found; none when the root does not exist\<close>
  "discovered e L =
     (if dir_exists e (skills_dir L) then loaded_of e (rglob_skill_md e (skills_dir L)) else [])"

definition three_env :: env where
  \<comment> \<open>three documents, found in this order: \<open>x\<close>, \<open>y\<close>, and \<open>x\<close> again\<close>
  "three_env =
     example_env
       [(''/r/a/SKILL.md'', doc_of (''name: x'' @ [NL] @ ''description: first'') ''Body one''),
        (''/r/b/SKILL.md'', doc_of (''name: y'' @ [NL] @ ''description: other'') ''Body two''),
        (''/r/c/SKILL.md'', doc_of (''name: x'' @ [NL] @ ''description: second'') ''Body three'')]
       [(''name: x'' @ [NL] @ ''description: first'',
           YMap [(YStr ''name'', YStr ''x''), (YStr ''description'', YStr ''first'')]),
        (''name: y'' @ [NL] @ ''description: other'',
           YMap [(YStr ''name'', YStr ''y''), (YStr ''description'', YStr ''other'')]),
        (''name: x'' @ [NL] @ ''description: second'',
           YMap [(YStr ''name'', YStr ''x''), (YStr ''description'', YStr ''second'')])]
       []"

definition three_first :: skill where
  "three_first = \<lparr>name = YStr ''x'', description = YStr ''first'', content = ''Body one'',
                   license = YNull, allowed_tools = YNull, metadata = YNull,
                   skill_path = ''/r/a/SKILL.md''\<rparr>"

definition three_other :: skill where
  "three_other = \<lparr>name = YStr ''y'', description = YStr ''other'', content = ''Body two'',
                   license = YNull, allowed_tools = YNull, metadata = YNull,
                   skill_path = ''/r/b/SKILL.md''\<rparr>"

definition three_second :: skill where
  "three_second = \<lparr>name = YStr ''x'', description = YStr ''second'', content = ''Body three'',
                    license = YNull, allowed_tools = YNull, metadata = YNull,
                    skill_path = ''/r/c/SKILL.md''\<rparr>"

subsection \<open>The three kinds of reference, in the specification's words\<close>











section \<open>Properties\<close>

subsection \<open>Literal matching and the header block\<close>

lemma strip_prefix_iff: "strip_prefix p s = Some r \<longleftrightarrow> s = p @ r"
  by (induction p s rule: strip_prefix.induct) auto

lemma find_sub_Some: "find_sub n s = Some (b, a) \<Longrightarrow> s = b @ n @ a"
  by (induction s arbitrary: b a) (auto simp: strip_prefix_iff split: option.splits)

lemma find_sub_None: "find_sub n s = None \<Longrightarrow> s \<noteq> b @ n @ a"
proof (induction s arbitrary: b)
  case Nil
  then show ?case by (auto simp: strip_prefix_iff split: option.splits)
next
  case (Cons c cs)
  from Cons.prems have np: "strip_prefix n (c # cs) = None" and nf: "find_sub n cs = None"
    by (auto split: option.splits)
  show ?case
  proof (cases b)
    case Nil
    with np show ?thesis using strip_prefix_iff[of n "c # cs" a] by auto
  next
    case (Cons b0 bs)
    with Cons.IH[OF nf, of bs] show ?thesis by auto
  qed
qed

lemma match_frontmatter_None:
  "match_frontmatter txt = None \<longleftrightarrow> \<not> opens_with_header_block txt"
proof
  assume m: "match_frontmatter txt = None"
  show "\<not> opens_with_header_block txt"
  proof
    assume "opens_with_header_block txt"
    then obtain h b where t: "txt = ''---'' @ [NL] @ h @ [NL] @ ''---'' @ [NL] @ b"
      by (auto simp: opens_with_header_block_def)
    then have "strip_prefix (''---'' @ [NL]) txt = Some (h @ ([NL] @ ''---'' @ [NL]) @ b)"
      by (simp add: strip_prefix_iff)
    with m have "find_sub ([NL] @ ''---'' @ [NL]) (h @ ([NL] @ ''---'' @ [NL]) @ b) = None"
      by (simp add: match_frontmatter_def)
    from find_sub_None[OF this, of h b] show False by simp
  qed
next
  assume n: "\<not> opens_with_header_block txt"
  show "match_frontmatter txt = None"
  proof (rule ccontr)
    assume "match_frontmatter txt \<noteq> None"
    then obtain h b where m: "match_frontmatter txt = Some (h, b)" by auto
    then obtain r where r: "strip_prefix (''---'' @ [NL]) txt = Some r"
      and f: "find_sub ([NL] @ ''---'' @ [NL]) r = Some (h, b)"
      by (auto simp: match_frontmatter_def split: option.splits)
    from r have "txt = (''---'' @ [NL]) @ r" by (simp only: strip_prefix_iff)
    moreover from find_sub_Some[OF f] have "r = h @ ([NL] @ ''---'' @ [NL]) @ b" .
    ultimately have "opens_with_header_block txt"
      by (auto simp: opens_with_header_block_def)
    with n show False by simp
  qed
qed

subsection \<open>The dict of the catalog\<close>

lemma py_eq_refl [simp]: "py_eq k k" by (simp add: py_eq_def)
lemma py_eq_sym: "py_eq a b = py_eq b a" by (auto simp: py_eq_def)
lemma py_eq_trans: "py_eq a b \<Longrightarrow> py_eq b c \<Longrightarrow> py_eq a c" by (simp add: py_eq_def)

lemma keys_dict_put:
  "map fst (dict_put d k v) =
     (if list_ex (\<lambda>k'. py_eq k' k) (map fst d) then map fst d else map fst d @ [k])"
  by (induction d) auto

lemma dict_get_put:
  "dict_get (dict_put d k v) k' = (if py_eq k k' then Some v else dict_get d k')"
  by (induction d) (auto simp: py_eq_def)

lemma keys_index_all:
  "map fst (index_all d ss) = map fst d @ firsts (map fst d) (map name ss)"
  unfolding index_all_def
  by (induction ss arbitrary: d) (auto simp: keys_dict_put)

lemma dict_get_index_all:
  "dict_get (index_all d ss) k =
     (case find (\<lambda>s. py_eq (name s) k) (rev ss) of Some s \<Rightarrow> Some s | None \<Rightarrow> dict_get d k)"
  unfolding index_all_def
  by (induction ss rule: rev_induct) (auto simp: dict_get_put)

lemma list_ex_norm: "list_ex (\<lambda>k'. py_eq k' k) seen \<longleftrightarrow> key_norm k \<in> key_norm ` set seen"
  by (simp add: list_ex_iff py_eq_def image_iff) metis

lemma firsts_norm_diff:
  "key_norm ` set (firsts seen ks) = key_norm ` set ks - key_norm ` set seen"
proof (induction ks arbitrary: seen)
  case Nil
  then show ?case by simp
next
  case (Cons k ks)
  show ?case
  proof (cases "list_ex (\<lambda>k'. py_eq k' k) seen")
    case True
    then have "key_norm k \<in> key_norm ` set seen" by (simp add: list_ex_norm)
    with True Cons.IH[of seen] show ?thesis by auto
  next
    case False
    then have "key_norm k \<notin> key_norm ` set seen" by (simp add: list_ex_norm)
    with False Cons.IH[of "seen @ [k]"] show ?thesis by auto
  qed
qed

lemma firsts_norm_set:
  "key_norm ` set (seen @ firsts seen ks) = key_norm ` (set seen \<union> set ks)"
  using firsts_norm_diff[of seen ks] by (auto simp: image_Un)

lemma firsts_distinct:
  "distinct (map key_norm seen) \<Longrightarrow> distinct (map key_norm (seen @ firsts seen ks))"
proof (induction ks arbitrary: seen)
  case Nil
  then show ?case by simp
next
  case (Cons k ks)
  show ?case
  proof (cases "list_ex (\<lambda>k'. py_eq k' k) seen")
    case True
    with Cons show ?thesis by simp
  next
    case False
    then have "distinct (map key_norm (seen @ [k]))"
      using Cons.prems by (auto simp: list_ex_norm)
    from Cons.IH[OF this] False show ?thesis by simp
  qed
qed

lemma firsts_length:
  assumes "distinct (map key_norm seen)"
  shows "length (seen @ firsts seen ks) = card (key_norm ` (set seen \<union> set ks))"
proof -
  have "length (seen @ firsts seen ks) = length (map key_norm (seen @ firsts seen ks))" by simp
  also have "\<dots> = card (set (map key_norm (seen @ firsts seen ks)))"
    using firsts_distinct[OF assms, of ks] by (simp only: distinct_card)
  also have "\<dots> = card (key_norm ` (set seen \<union> set ks))"
    using firsts_norm_set[of seen ks] by (simp only: set_map)
  finally show ?thesis .
qed

lemma loaded_of_Cons:
  "loaded_of e (f # fs) = (case load_skill e f of Inr (Loaded s) \<Rightarrow> [s] | _ \<Rightarrow> []) @ loaded_of e fs"
  by (simp add: loaded_of_def)

lemma loaded_of_Nil [simp]: "loaded_of e [] = []"
  by (simp add: loaded_of_def)

lemma index_all_Cons: "index_all d (s # ss) = index_all (dict_put d (name s) s) ss"
  by (simp add: index_all_def)

lemma index_all_Nil [simp]: "index_all d [] = d"
  by (simp add: index_all_def)

lemma load_skill_Inr: "load_skill e p \<noteq> Inl ex"
  by (simp add: load_skill_def split: sum.splits)

lemma discover_loop_ok:
  "\<forall>s \<in> set (loaded_of e files). hashable (name s) \<Longrightarrow>
   discover_loop e files skills d = (Inr (skills @ loaded_of e files), index_all d (loaded_of e files))"
proof (induction files arbitrary: skills d)
  case Nil
  then show ?case by simp
next
  case (Cons f fs)
  show ?case
  proof (cases "load_skill e f")
    case (Inl ex)
    then show ?thesis using load_skill_Inr by blast
  next
    case (Inr r)
    show ?thesis
    proof (cases r)
      case (Loaded s)
      with Inr Cons.prems have h: "hashable (name s)" and rest: "\<forall>s \<in> set (loaded_of e fs). hashable (name s)"
        by (auto simp: loaded_of_Cons)
      from Cons.IH[OF rest] Inr Loaded h show ?thesis
        by (simp add: loaded_of_Cons dict_setitem_def index_all_Cons)
    next
      case (Failed x)
      with Inr Cons.prems have rest: "\<forall>s \<in> set (loaded_of e fs). hashable (name s)"
        by (auto simp: loaded_of_Cons)
      from Cons.IH[OF rest] Inr Failed show ?thesis
        by (simp add: loaded_of_Cons)
    qed
  qed
qed

lemma discover_loop_Inr:
  "discover_loop e files skills d = (Inr out, d') \<Longrightarrow> \<forall>s \<in> set (loaded_of e files). hashable (name s)"
proof (induction files arbitrary: skills d)
  case Nil
  then show ?case by simp
next
  case (Cons f fs)
  show ?case
  proof (cases "load_skill e f")
    case (Inl ex)
    then show ?thesis using load_skill_Inr by blast
  next
    case (Inr r)
    show ?thesis
    proof (cases r)
      case (Loaded s)
      with Inr Cons.prems obtain d1 where d1: "dict_setitem d (name s) s = Inr d1"
        and r: "discover_loop e fs (skills @ [s]) d1 = (Inr out, d')"
        by (auto split: sum.splits)
      from d1 have "hashable (name s)" by (auto simp: dict_setitem_def split: if_splits)
      with Cons.IH[OF r] Inr Loaded show ?thesis by (simp add: loaded_of_Cons)
    next
      case (Failed x)
      with Inr Cons.prems have "discover_loop e fs skills d = (Inr out, d')" by simp
      from Cons.IH[OF this] Inr Failed show ?thesis by (simp add: loaded_of_Cons)
    qed
  qed
qed

lemma length_loaded_of:
  "length (loaded_of e files) = length files - length (malformed e files)"
proof (induction files)
  case Nil
  then show ?case by (simp add: malformed_def)
next
  case (Cons f fs)
  have le: "length (malformed e fs) \<le> length fs" by (simp add: malformed_def)
  show ?case
  proof (cases "is_loaded (load_skill e f)")
    case True
    then obtain s where "load_skill e f = Inr (Loaded s)"
      by (auto simp: is_loaded_def split: sum.splits load_result.splits)
    with True Cons le show ?thesis by (simp add: loaded_of_Cons malformed_def Suc_diff_le)
  next
    case False
    then have "(case load_skill e f of Inr (Loaded s) \<Rightarrow> [s] | _ \<Rightarrow> []) = []"
      by (auto simp: is_loaded_def split: sum.splits load_result.splits)
    with False Cons le show ?thesis by (simp add: loaded_of_Cons malformed_def)
  qed
qed

subsection \<open>The parser\<close>

text \<open>
  C7. Whatever the document is (unreadable, without a header block, with a header that is
  not valid YAML, that is not a mapping, or that is empty), \<open>load_skill\<close> raises nothing:
  it returns a Skill or a failure that it has reported.
\<close>

theorem load_skill_never_raises: "\<exists>r. load_skill e p = Inr r"
  by (simp add: load_skill_def split: sum.splits)

text \<open>
  C6. A document that does not open with a header block (a line \<open>---\<close>, header text, a
  second line \<open>---\<close>, then the body) fails with \<open>MissingHeader\<close>, and no Skill is built.
\<close>

theorem load_skill_missing_header:
  assumes "read_text e p = Inr doc" and "\<not> opens_with_header_block doc"
  shows "load_skill e p = Inr (Failed MissingHeader)"
  using assms match_frontmatter_None[of doc]
  by (simp add: load_skill_def load_skill_try_def)

theorem load_skill_missing_header_witness:
  "load_skill (example_env [(''/r/a/SKILL.md'', ''# Title'')] [] []) ''/r/a/SKILL.md''
     = Inr (Failed MissingHeader)"
proof -
  have r: "read_text (example_env [(''/r/a/SKILL.md'', ''# Title'')] [] []) ''/r/a/SKILL.md''
             = Inr ''# Title''"
    by (simp add: example_env_def)
  have n: "\<not> opens_with_header_block ''# Title''"
    by (simp add: opens_with_header_block_def)
  show ?thesis
    by (rule load_skill_missing_header [OF r n])
qed

lemma build_skill_Loaded:
  "build_skill p fm c = Inr (Loaded s) \<Longrightarrow>
     \<exists>kvs. fm = YMap kvs \<and> map_of kvs (YStr ''name'') = Some (name s)
          \<and> map_of kvs (YStr ''description'') = Some (description s) \<and> content s = c"
  by (cases fm) (auto simp: build_skill_def py_getitem_def py_get_def split: option.splits sum.splits)

lemma load_skill_Loaded:
  "load_skill e p = Inr (Loaded s) \<Longrightarrow>
     \<exists>doc h b fm. read_text e p = Inr doc \<and> match_frontmatter doc = Some (h, b)
        \<and> yaml_safe_load e h = Inr fm \<and> missing_required fm = Inr False
        \<and> build_skill p fm (process_skill_paths e (path_parent e p) (strip b)) = Inr (Loaded s)"
  by (auto simp: load_skill_def load_skill_try_def Let_def split: sum.splits option.splits if_splits)

lemma empty_name_load:
  "load_skill empty_name_env ''/r/a/SKILL.md'' =
     Inr (Loaded \<lparr>name = YStr [], description = YStr ''Does A'', content = ''Body'',
                  license = YNull, allowed_tools = YNull, metadata = YNull,
                  skill_path = ''/r/a/SKILL.md''\<rparr>)"
  by code_simp

text \<open>
  C2, as the code has it. A header that is a mapping without the key \<open>name\<close> or without the
  key \<open>description\<close> fails with \<open>MissingRequiredField\<close> and no Skill is built. The values
  are not looked at: every Skill built comes from a header that is a mapping with both
  keys, and its name and description are the values the header gives them, whatever they
  are (the empty string and \<open>None\<close> included).
\<close>

theorem load_skill_required_fields:
  "(header_of e p = Some (YMap kvs)
      \<and> (YStr ''name'' \<notin> fst ` set kvs \<or> YStr ''description'' \<notin> fst ` set kvs)
      \<longrightarrow> load_skill e p = Inr (Failed MissingRequiredField))
   \<and> (load_skill e p = Inr (Loaded s)
      \<longrightarrow> (\<exists>kvs'. header_of e p = Some (YMap kvs')
             \<and> map_of kvs' (YStr ''name'') = Some (name s)
             \<and> map_of kvs' (YStr ''description'') = Some (description s)))"
proof (intro conjI impI)
  assume a: "header_of e p = Some (YMap kvs)
      \<and> (YStr ''name'' \<notin> fst ` set kvs \<or> YStr ''description'' \<notin> fst ` set kvs)"
  then obtain doc h b where "read_text e p = Inr doc" "match_frontmatter doc = Some (h, b)"
      "yaml_safe_load e h = Inr (YMap kvs)"
    by (auto simp: header_of_def split: sum.splits option.splits)
  moreover from a have "missing_required (YMap kvs) = Inr True"
    by (auto simp: missing_required_def py_in_def)
  ultimately show "load_skill e p = Inr (Failed MissingRequiredField)"
    by (simp add: load_skill_def load_skill_try_def)
next
  assume "load_skill e p = Inr (Loaded s)"
  from load_skill_Loaded[OF this] obtain doc h b fm where
    r: "read_text e p = Inr doc" "match_frontmatter doc = Some (h, b)" "yaml_safe_load e h = Inr fm"
    and bs: "build_skill p fm (process_skill_paths e (path_parent e p) (strip b)) = Inr (Loaded s)"
    by blast
  from build_skill_Loaded[OF bs] obtain kvs' where "fm = YMap kvs'"
    "map_of kvs' (YStr ''name'') = Some (name s)" "map_of kvs' (YStr ''description'') = Some (description s)"
    by blast
  with r show "\<exists>kvs'. header_of e p = Some (YMap kvs')
             \<and> map_of kvs' (YStr ''name'') = Some (name s)
             \<and> map_of kvs' (YStr ''description'') = Some (description s)"
    by (simp add: header_of_def)
qed

theorem load_skill_required_fields_witness:
  "load_skill no_description_env ''/r/b/SKILL.md'' = Inr (Failed MissingRequiredField)
   \<and> (\<exists>kvs'. header_of empty_name_env ''/r/a/SKILL.md'' = Some (YMap kvs')
          \<and> map_of kvs' (YStr ''name'') = Some (YStr [])
          \<and> map_of kvs' (YStr ''description'') = Some (YStr ''Does A''))"
proof
  have h: "header_of no_description_env ''/r/b/SKILL.md'' = Some (YMap [(YStr ''name'', YStr ''beta'')])"
    by code_simp
  have k: "YStr ''description'' \<notin> fst ` set [(YStr ''name'', YStr ''beta'')]"
    by simp
  from h k show "load_skill no_description_env ''/r/b/SKILL.md'' = Inr (Failed MissingRequiredField)"
    using load_skill_required_fields [of no_description_env "''/r/b/SKILL.md''"
            "[(YStr ''name'', YStr ''beta'')]"]
    by blast
next
  show "\<exists>kvs'. header_of empty_name_env ''/r/a/SKILL.md'' = Some (YMap kvs')
          \<and> map_of kvs' (YStr ''name'') = Some (YStr [])
          \<and> map_of kvs' (YStr ''description'') = Some (YStr ''Does A'')"
    using load_skill_required_fields [of empty_name_env "''/r/a/SKILL.md''" _
            "\<lparr>name = YStr [], description = YStr ''Does A'', content = ''Body'',
              license = YNull, allowed_tools = YNull, metadata = YNull,
              skill_path = ''/r/a/SKILL.md''\<rparr>"]
      empty_name_load
    by simp
qed

text \<open>
  C2 as stated fails: a document whose header gives \<open>name\<close> the empty string is parsed
  into a Skill whose name is empty.
\<close>

theorem empty_name_is_loaded:
  "load_skill empty_name_env ''/r/a/SKILL.md'' =
     Inr (Loaded \<lparr>name = YStr [], description = YStr ''Does A'', content = ''Body'',
                  license = YNull, allowed_tools = YNull, metadata = YNull,
                  skill_path = ''/r/a/SKILL.md''\<rparr>)"
  by (rule empty_name_load)

subsection \<open>The catalog and the two views\<close>

lemma dup_load_a: "load_skill dup_env ''/r/a/SKILL.md'' = Inr (Loaded dup_first)"
  unfolding dup_first_def by code_simp

lemma dup_load_b: "load_skill dup_env ''/r/b/SKILL.md'' = Inr (Loaded dup_second)"
  unfolding dup_second_def by code_simp

lemma dup_files: "rglob_skill_md dup_env d = [''/r/a/SKILL.md'', ''/r/b/SKILL.md'']"
  by (simp add: dup_env_def example_env_def)

lemma dup_dir: "dir_exists dup_env d"
  by (simp add: dup_env_def example_env_def)

lemma dup_discover:
  "discover_skills dup_env (new_loader ''/r'') =
     (Inr [dup_first, dup_second], \<lparr>skills_dir = ''/r'', loaded_skills = [(YStr ''x'', dup_second)]\<rparr>)"
  by (simp add: discover_skills_def new_loader_def dup_files dup_dir dup_load_a dup_load_b
        dict_setitem_def hashable_def dup_first_def dup_second_def)

lemma discover_skills_ok:
  assumes "dir_exists e dir"
    and "\<forall>s \<in> set (loaded_of e (rglob_skill_md e dir)). hashable (name s)"
  shows "discover_skills e (new_loader dir) =
           (Inr (loaded_of e (rglob_skill_md e dir)),
            \<lparr>skills_dir = dir, loaded_skills = index_all [] (loaded_of e (rglob_skill_md e dir))\<rparr>)"
  using assms discover_loop_ok[of e "rglob_skill_md e dir" "[]" "[]"]
  by (simp add: discover_skills_def new_loader_def)

lemma discover_skills_Inr:
  assumes "discover_skills e L0 = (Inr skills, L)"
  shows "skills_dir L = skills_dir L0 \<and> loaded_skills L = index_all (loaded_skills L0) skills"
proof (cases "dir_exists e (skills_dir L0)")
  case False
  with assms show ?thesis by (auto simp: discover_skills_def)
next
  case True
  with assms obtain d where
    l: "discover_loop e (rglob_skill_md e (skills_dir L0)) [] (loaded_skills L0) = (Inr skills, d)"
    and L: "L = L0\<lparr>loaded_skills := d\<rparr>"
    by (auto simp: discover_skills_def split: prod.splits)
  from discover_loop_Inr[OF l] have
    "\<forall>s\<in>set (loaded_of e (rglob_skill_md e (skills_dir L0))). hashable (name s)" .
  from discover_loop_ok[OF this, of "[]" "loaded_skills L0"] l
  have "skills = loaded_of e (rglob_skill_md e (skills_dir L0))"
    and "d = index_all (loaded_skills L0) (loaded_of e (rglob_skill_md e (skills_dir L0)))"
    by simp_all
  with L show ?thesis by simp
qed

lemma find_app:
  "find P (xs @ ys) = (case find P xs of None \<Rightarrow> find P ys | Some x \<Rightarrow> Some x)"
  by (induction xs) auto

lemma find_None_all: "find P xs = None \<longleftrightarrow> (\<forall>x \<in> set xs. \<not> P x)"
  by (induction xs) auto

lemma py_eq_YStr [simp]: "py_eq k (YStr n) \<longleftrightarrow> k = YStr n"
  by (cases k) (auto simp: py_eq_def key_norm_def)

lemma key_norm_YStr [simp]: "key_norm k = YStr n \<longleftrightarrow> k = YStr n"
  by (cases k) (auto simp: key_norm_def)

lemma loaded_of_append: "loaded_of e (xs @ ys) = loaded_of e xs @ loaded_of e ys"
  by (simp add: loaded_of_def)

lemma loaded_of_single: "load_skill e p = Inr (Loaded s) \<Longrightarrow> loaded_of e [p] = [s]"
  by (simp add: loaded_of_def)

lemma count_key:
  assumes "distinct (map key_norm ks)" and "YStr n \<in> set ks"
  shows "length (filter (\<lambda>k. k = YStr n) ks) = 1"
proof -
  from assms(1) have d: "distinct ks" by (simp add: distinct_map)
  have "length (filter (\<lambda>k. k = YStr n) ks) = card ({k. k = YStr n} \<inter> set ks)"
    using d by (rule distinct_length_filter)
  also have "{k. k = YStr n} \<inter> set ks = {YStr n}" using assms(2) by auto
  finally show ?thesis by simp
qed

lemma keys_fresh_distinct: "distinct (map key_norm (map fst (index_all [] ss)))"
  using firsts_distinct[of "[]" "map name ss"] by (simp add: keys_index_all)

lemma key_in_index:
  assumes "s \<in> set ss" and "name s = YStr n"
  shows "YStr n \<in> set (map fst (index_all d ss))"
proof -
  have "key_norm (YStr n) \<in> key_norm ` (set (map fst d) \<union> set (map name ss))"
    using assms by (force simp: key_norm_def)
  then have "key_norm (YStr n) \<in> key_norm ` set (map fst d @ firsts (map fst d) (map name ss))"
    by (simp only: firsts_norm_set)
  then obtain k where "k \<in> set (map fst d @ firsts (map fst d) (map name ss))"
      and "key_norm (YStr n) = key_norm k"
    by blast
  then have "k \<in> set (map fst (index_all d ss))" and "key_norm k = YStr n"
    by (simp_all add: keys_index_all key_norm_def)
  then show ?thesis by simp
qed

text \<open>
  C5. Two documents that parse and declare the same name: after the pass the catalog has
  one entry under that name, \<open>get\<close> returns the Skill of the later document, whole, with
  no field of the earlier one, and the pass ends without an exception (the names of the
  Skills of the pass being hashable, as strings are).
\<close>

theorem duplicate_name_last_wins:
  assumes ex: "dir_exists e dir"
    and files: "rglob_skill_md e dir = A @ [p1] @ B @ [p2] @ C"
    and l1: "load_skill e p1 = Inr (Loaded s1)" and l2: "load_skill e p2 = Inr (Loaded s2)"
    and n1: "name s1 = YStr n" and n2: "name s2 = YStr n"
    and later: "\<forall>s \<in> set (loaded_of e C). name s \<noteq> YStr n"
    and hash: "\<forall>s \<in> set (loaded_of e (rglob_skill_md e dir)). hashable (name s)"
  shows "\<exists>skills L. discover_skills e (new_loader dir) = (Inr skills, L)
           \<and> get_skill L n = Some s2
           \<and> length (filter (\<lambda>k. k = YStr n) (list_skills L)) = 1"
proof -
  let ?ss = "loaded_of e (rglob_skill_md e dir)"
  let ?L = "\<lparr>skills_dir = dir, loaded_skills = index_all [] ?ss\<rparr>"
  have d: "discover_skills e (new_loader dir) = (Inr ?ss, ?L)"
    by (rule discover_skills_ok[OF ex hash])
  have ss: "?ss = loaded_of e A @ [s1] @ loaded_of e B @ [s2] @ loaded_of e C"
    by (simp add: files loaded_of_append loaded_of_Cons l1 l2)
  have none: "find (\<lambda>s. name s = YStr n) (rev (loaded_of e C)) = None"
    using later by (simp add: find_None_all)
  have "find (\<lambda>s. name s = YStr n) (rev ?ss) = Some s2"
    by (simp add: ss find_app none n2)
  then have g: "get_skill ?L n = Some s2"
    by (simp add: get_skill_def dict_get_index_all)
  have "s2 \<in> set ?ss" by (simp add: ss)
  from key_in_index[OF this n2, of "[]"] have "YStr n \<in> set (list_skills ?L)"
    by (simp add: list_skills_def)
  moreover have "distinct (map key_norm (list_skills ?L))"
    using keys_fresh_distinct[of ?ss] by (simp add: list_skills_def)
  ultimately have c: "length (filter (\<lambda>k. k = YStr n) (list_skills ?L)) = 1"
    by (intro count_key)
  from d g c show ?thesis by blast
qed

text \<open>
  C4, as the code has it. Over \<open>N\<close> documents of which \<open>M\<close> fail to parse, the pass returns
  exactly \<open>N - M\<close> Skills and a malformed document does not stop it (the names of the parsed
  Skills being hashable). The index then holds one entry for each distinct name, so
  \<open>list()\<close> has as many entries as there are distinct names among the \<open>N - M\<close> Skills:
  at most \<open>N - M\<close>, and \<open>N - M\<close> when no two of them declare the same name.
\<close>

theorem discover_counts:
  assumes ex: "dir_exists e dir"
    and hash: "\<forall>s \<in> set (loaded_of e (rglob_skill_md e dir)). hashable (name s)"
  shows "\<exists>skills L. discover_skills e (new_loader dir) = (Inr skills, L)
           \<and> length skills = length (rglob_skill_md e dir) - length (malformed e (rglob_skill_md e dir))
           \<and> length (list_skills L) = card (key_norm ` name ` set skills)
           \<and> length (list_skills L) \<le> length skills
           \<and> (distinct (map (\<lambda>s. key_norm (name s)) skills) \<longrightarrow> length (list_skills L) = length skills)"
proof -
  let ?ss = "loaded_of e (rglob_skill_md e dir)"
  let ?L = "\<lparr>skills_dir = dir, loaded_skills = index_all [] ?ss\<rparr>"
  have d: "discover_skills e (new_loader dir) = (Inr ?ss, ?L)"
    by (rule discover_skills_ok[OF ex hash])
  have n: "length ?ss = length (rglob_skill_md e dir) - length (malformed e (rglob_skill_md e dir))"
    by (rule length_loaded_of)
  have c: "length (list_skills ?L) = card (key_norm ` name ` set ?ss)"
    using firsts_length[of "[]" "map name ?ss"] by (simp add: list_skills_def keys_index_all)
  have "card (key_norm ` name ` set ?ss) \<le> card (set ?ss)"
    by (simp add: image_image card_image_le)
  also have "\<dots> \<le> length ?ss" by (rule card_length)
  finally have le: "length (list_skills ?L) \<le> length ?ss" using c by simp
  have eq: "distinct (map (\<lambda>s. key_norm (name s)) ?ss) \<longrightarrow> length (list_skills ?L) = length ?ss"
  proof
    assume di: "distinct (map (\<lambda>s. key_norm (name s)) ?ss)"
    have "card (key_norm ` name ` set ?ss) = card (set (map (\<lambda>s. key_norm (name s)) ?ss))"
      by (simp add: image_image)
    also have "\<dots> = length (map (\<lambda>s. key_norm (name s)) ?ss)" using di by (rule distinct_card)
    finally show "length (list_skills ?L) = length ?ss" using c by simp
  qed
  from d n c le eq show ?thesis by blast
qed

lemma discover_skills_discovered:
  assumes "\<forall>s \<in> set (discovered e L0). hashable (name s)"
  shows "discover_skills e L0 =
           (Inr (discovered e L0), L0\<lparr>loaded_skills := index_all (loaded_skills L0) (discovered e L0)\<rparr>)"
proof (cases "dir_exists e (skills_dir L0)")
  case True
  with assms have h: "\<forall>s \<in> set (loaded_of e (rglob_skill_md e (skills_dir L0))). hashable (name s)"
    by (simp add: discovered_def)
  from discover_loop_ok[OF h, of "[]" "loaded_skills L0"] True show ?thesis
    by (simp add: discover_skills_def discovered_def)
next
  case False
  then show ?thesis by (simp add: discover_skills_def discovered_def)
qed

lemma count_py_eq:
  assumes d: "distinct (map key_norm ks)" and m: "key_norm k \<in> key_norm ` set ks"
  shows "length (filter (\<lambda>k'. py_eq k' k) ks) = 1"
proof -
  have "length (filter (\<lambda>k'. py_eq k' k) ks)
          = length (filter (\<lambda>x. x = key_norm k) (map key_norm ks))"
    by (induction ks) (auto simp: py_eq_def)
  also have "\<dots> = card ({x. x = key_norm k} \<inter> set (map key_norm ks))"
    using d by (rule distinct_length_filter)
  also have "{x. x = key_norm k} \<inter> set (map key_norm ks) = {key_norm k}" using m by auto
  finally show ?thesis by simp
qed

text \<open>
  C10. Let the names that the Skills of the parseable documents under the root declare
  be hashable, and let no two entries of \<open>list()\<close> be equal as dict keys before the pass.
  Then the discovery pass returns, and it returns those Skills in the order their
  documents are found. After it \<open>list()\<close> is the list of before followed by the names
  the pass met for the first time, each at the place of its first discovery; no two
  entries are equal as dict keys; the name of each Skill found is in \<open>list()\<close> exactly
  once, however many documents declare it; and \<open>get\<close> returns the Skill of the last
  document of the pass that declares the name.
\<close>

theorem list_skills_first_positions:
  assumes hash: "\<forall>s \<in> set (discovered e L0). hashable (name s)"
    and inv: "distinct (map key_norm (list_skills L0))"
  shows "\<exists>L. discover_skills e L0 = (Inr (discovered e L0), L)
           \<and> list_skills L = list_skills L0 @ firsts (list_skills L0) (map name (discovered e L0))
           \<and> distinct (map key_norm (list_skills L))
           \<and> (\<forall>s \<in> set (discovered e L0).
                 length (filter (\<lambda>k. py_eq k (name s)) (list_skills L)) = 1)
           \<and> get_skill L n = (case find (\<lambda>s. name s = YStr n) (rev (discovered e L0)) of
                                 Some s \<Rightarrow> Some s
                               | None \<Rightarrow> get_skill L0 n)"
proof -
  let ?ss = "discovered e L0"
  let ?L = "L0\<lparr>loaded_skills := index_all (loaded_skills L0) ?ss\<rparr>"
  have d: "discover_skills e L0 = (Inr ?ss, ?L)" by (rule discover_skills_discovered[OF hash])
  have k: "list_skills ?L = list_skills L0 @ firsts (list_skills L0) (map name ?ss)"
    by (simp add: list_skills_def keys_index_all)
  have di: "distinct (map key_norm (list_skills ?L))"
    unfolding k by (rule firsts_distinct[OF inv])
  have once: "\<forall>s \<in> set ?ss. length (filter (\<lambda>k. py_eq k (name s)) (list_skills ?L)) = 1"
  proof
    fix s assume "s \<in> set ?ss"
    then have "key_norm (name s) \<in> key_norm ` (set (list_skills L0) \<union> set (map name ?ss))" by auto
    then have "key_norm (name s) \<in> key_norm ` set (list_skills ?L)"
      unfolding k by (simp only: firsts_norm_set)
    with di show "length (filter (\<lambda>k. py_eq k (name s)) (list_skills ?L)) = 1"
      by (rule count_py_eq)
  qed
  have g: "get_skill ?L n = (case find (\<lambda>s. name s = YStr n) (rev ?ss) of
                               Some s \<Rightarrow> Some s
                             | None \<Rightarrow> get_skill L0 n)"
    by (simp add: get_skill_def dict_get_index_all split: option.splits)
  from d k di once g show ?thesis by blast
qed

lemma three_load_a: "load_skill three_env ''/r/a/SKILL.md'' = Inr (Loaded three_first)"
  unfolding three_first_def by code_simp

lemma three_load_b: "load_skill three_env ''/r/b/SKILL.md'' = Inr (Loaded three_other)"
  unfolding three_other_def by code_simp

lemma three_load_c: "load_skill three_env ''/r/c/SKILL.md'' = Inr (Loaded three_second)"
  unfolding three_second_def by code_simp

lemma three_files:
  "rglob_skill_md three_env d = [''/r/a/SKILL.md'', ''/r/b/SKILL.md'', ''/r/c/SKILL.md'']"
  by (simp add: three_env_def example_env_def)

lemma three_dir: "dir_exists three_env d"
  by (simp add: three_env_def example_env_def)

lemma three_discovered:
  "discovered three_env (new_loader ''/r'') = [three_first, three_other, three_second]"
  by (simp add: discovered_def three_files three_dir loaded_of_Cons
        three_load_a three_load_b three_load_c)

theorem list_skills_first_positions_witness:
  "\<exists>L. discover_skills three_env (new_loader ''/r'') = (Inr [three_first, three_other, three_second], L)
      \<and> list_skills L = [YStr ''x'', YStr ''y'']
      \<and> get_skill L ''x'' = Some three_second"
proof -
  have h: "\<forall>s \<in> set (discovered three_env (new_loader ''/r'')). hashable (name s)"
    by (simp add: three_discovered three_first_def three_other_def three_second_def hashable_def)
  have inv: "distinct (map key_norm (list_skills (new_loader ''/r'')))"
    by (simp add: list_skills_def new_loader_def)
  from list_skills_first_positions [OF h inv, of "''x''"] obtain L where
    d: "discover_skills three_env (new_loader ''/r'') = (Inr (discovered three_env (new_loader ''/r'')), L)"
    and k: "list_skills L = list_skills (new_loader ''/r'')
              @ firsts (list_skills (new_loader ''/r'')) (map name (discovered three_env (new_loader ''/r'')))"
    and g: "get_skill L ''x'' = (case find (\<lambda>s. name s = YStr ''x'')
                                      (rev (discovered three_env (new_loader ''/r''))) of
                                 Some s \<Rightarrow> Some s
                               | None \<Rightarrow> get_skill (new_loader ''/r'') ''x'')"
    by blast
  have e: "list_skills (new_loader ''/r'') = []" by (simp add: list_skills_def new_loader_def)
  from k have k': "list_skills L = [YStr ''x'', YStr ''y'']"
    unfolding three_discovered e
    by (simp add: three_first_def three_other_def three_second_def)
  from g have g': "get_skill L ''x'' = Some three_second"
    unfolding three_discovered
    by (simp add: three_first_def three_other_def three_second_def)
  from d k' g' show ?thesis by (auto simp: three_discovered)
qed

lemma scenario_load_a: "load_skill scenario_env ''/r/a/SKILL.md'' = Inr (Loaded alpha)"
  unfolding alpha_def by code_simp

lemma scenario_load_b: "load_skill scenario_env ''/r/b/SKILL.md'' = Inr (Failed MissingRequiredField)"
  by code_simp

lemma scenario_files: "rglob_skill_md scenario_env d = [''/r/a/SKILL.md'', ''/r/b/SKILL.md'']"
  by (simp add: scenario_env_def example_env_def)

lemma scenario_dir: "dir_exists scenario_env d"
  by (simp add: scenario_env_def example_env_def)

lemma scenario_loaded: "loaded_of scenario_env [''/r/a/SKILL.md'', ''/r/b/SKILL.md''] = [alpha]"
  by (simp add: loaded_of_Cons scenario_load_a scenario_load_b)

lemma scenario_malformed: "malformed scenario_env [''/r/a/SKILL.md'', ''/r/b/SKILL.md''] = [''/r/b/SKILL.md'']"
  by (simp add: malformed_def is_loaded_def scenario_load_a scenario_load_b)

theorem discover_counts_witness:
  "\<exists>skills L. discover_skills scenario_env (new_loader ''/r'') = (Inr skills, L)
      \<and> length skills = 1 \<and> length (list_skills L) = 1"
proof -
  have h: "\<forall>s \<in> set (loaded_of scenario_env (rglob_skill_md scenario_env ''/r'')). hashable (name s)"
    by (simp add: scenario_files scenario_loaded alpha_def hashable_def)
  from discover_counts [OF scenario_dir h] obtain skills L where
    d: "discover_skills scenario_env (new_loader ''/r'') = (Inr skills, L)"
    and n: "length skills = length (rglob_skill_md scenario_env ''/r'')
              - length (malformed scenario_env (rglob_skill_md scenario_env ''/r''))"
    and eq: "distinct (map (\<lambda>s. key_norm (name s)) skills) \<longrightarrow> length (list_skills L) = length skills"
    by blast
  from n have one: "length skills = 1" by (simp add: scenario_files scenario_malformed)
  then obtain s where "skills = [s]" by (cases skills) auto
  with eq have "length (list_skills L) = length skills" by simp
  with d one show ?thesis by auto
qed

text \<open>
  C4 as stated fails: two documents, none malformed, that declare the same name give
  two Skills and a \<open>list()\<close> of length one.
\<close>

theorem duplicate_names_counterexample:
  "length (rglob_skill_md dup_env ''/r'') = 2
   \<and> length (malformed dup_env (rglob_skill_md dup_env ''/r'')) = 0
   \<and> length (list_skills (snd (discover_skills dup_env (new_loader ''/r'')))) = 1"
  by (simp add: dup_files malformed_def is_loaded_def dup_load_a dup_load_b dup_discover list_skills_def)

lemma dup_loaded: "loaded_of dup_env [''/r/a/SKILL.md'', ''/r/b/SKILL.md''] = [dup_first, dup_second]"
  by (simp add: loaded_of_Cons dup_load_a dup_load_b)

theorem duplicate_name_last_wins_witness:
  "\<exists>skills L. discover_skills dup_env (new_loader ''/r'') = (Inr skills, L)
      \<and> get_skill L ''x'' = Some dup_second
      \<and> length (filter (\<lambda>k. k = YStr ''x'') (list_skills L)) = 1"
proof -
  have f: "rglob_skill_md dup_env ''/r'' = [] @ [''/r/a/SKILL.md''] @ [] @ [''/r/b/SKILL.md''] @ []"
    by (simp add: dup_files)
  have n1: "name dup_first = YStr ''x''" and n2: "name dup_second = YStr ''x''"
    by (simp_all add: dup_first_def dup_second_def)
  have later: "\<forall>s \<in> set (loaded_of dup_env []). name s \<noteq> YStr ''x''" by simp
  have h: "\<forall>s \<in> set (loaded_of dup_env (rglob_skill_md dup_env ''/r'')). hashable (name s)"
    by (simp add: dup_files dup_loaded dup_first_def dup_second_def hashable_def)
  show ?thesis
    by (rule duplicate_name_last_wins [OF dup_dir f dup_load_a dup_load_b n1 n2 later h])
qed

lemma null_discover_one:
  "discover_skills null_name_env (new_loader ''/r'') =
     (Inr [null_named], \<lparr>skills_dir = ''/r'', loaded_skills = [(YNull, null_named)]\<rparr>)"
  unfolding null_named_def by code_simp

lemma dict_get_None: "dict_get d (YStr n) = None \<longleftrightarrow> YStr n \<notin> fst ` set d"
  by (induction d) (auto split: if_splits)

lemma str_items_strings: "str_items (map YStr names) = Inr names"
  by (induction names) auto

text \<open>
  The lookup of a name that is not indexed: \<open>get\<close> returns \<open>None\<close> and raises nothing, and
  when all the indexed names are strings, as the annotation \<open>Dict[str, Skill]\<close> says, the
  lookup tool returns a failed result whose message holds the requested name and, at its
  end, the indexed names joined by a comma and a space.
\<close>

theorem execute_not_found:
  "(YStr n \<notin> set (list_skills L) \<longrightarrow> get_skill L n = None)
   \<and> (YStr n \<notin> set (list_skills L) \<and> list_skills L = map YStr names \<longrightarrow>
        execute e L n =
          Inr \<lparr>tr_success = False, tr_content = [],
               tr_error = Some (err_head @ n @ err_mid @ join '', '' names)\<rparr>)"
proof (intro conjI impI)
  assume "YStr n \<notin> set (list_skills L)"
  then show "get_skill L n = None"
    by (simp add: get_skill_def list_skills_def dict_get_None)
next
  assume a: "YStr n \<notin> set (list_skills L) \<and> list_skills L = map YStr names"
  then have g: "get_skill L n = None"
    by (simp add: get_skill_def list_skills_def dict_get_None)
  from a have "py_join '', '' (list_skills L) = Inr (join '', '' names)"
    by (simp add: py_join_def str_items_strings)
  with g show "execute e L n =
          Inr \<lparr>tr_success = False, tr_content = [],
               tr_error = Some (err_head @ n @ err_mid @ join '', '' names)\<rparr>"
    by (simp add: execute_def)
qed

theorem execute_not_found_witness:
  "get_skill \<lparr>skills_dir = ''/r'', loaded_skills = [(YStr ''x'', dup_second)]\<rparr> ''beta'' = None
   \<and> execute dup_env \<lparr>skills_dir = ''/r'', loaded_skills = [(YStr ''x'', dup_second)]\<rparr> ''beta'' =
        Inr \<lparr>tr_success = False, tr_content = [],
             tr_error = Some (err_head @ ''beta'' @ err_mid @ ''x'')\<rparr>"
  using execute_not_found [of "''beta''" "\<lparr>skills_dir = ''/r'', loaded_skills = [(YStr ''x'', dup_second)]\<rparr>"
          "[''x'']" dup_env]
  by (simp add: list_skills_def)

text \<open>
  C9. The lookup of a name that is not indexed is to return a not-found result whose
  message lists the indexed names. The code misses a case: a document whose header leaves
  \<open>name\<close> empty is parsed and indexed under \<open>None\<close>, and from then on the lookup of a name
  that is not indexed finds nothing, as it should, and then raises \<open>TypeError\<close> in
  \<open>", ".join\<close> instead of returning the not-found result.
\<close>

theorem execute_raises_on_null_name:
  "list_skills (snd (discover_skills null_name_env (new_loader ''/r''))) = [YNull]
   \<and> get_skill (snd (discover_skills null_name_env (new_loader ''/r''))) ''beta'' = None
   \<and> execute null_name_env (snd (discover_skills null_name_env (new_loader ''/r''))) ''beta''
       = Inl TypeError"
  by (simp add: null_discover_one list_skills_def get_skill_def execute_def py_join_def
        py_eq_def key_norm_def)

lemma join_Cons: "join sep (x # ys) = x @ concat (map (\<lambda>y. sep @ y) ys)"
  by (induction ys arbitrary: x) auto

lemma join_append:
  "xs \<noteq> [] \<Longrightarrow> join sep (xs @ ys) = join sep xs @ concat (map (\<lambda>y. sep @ y) ys)"
  by (cases xs) (simp_all add: join_Cons)

lemma length_skill_line:
  "length (skill_line e s) = 6 + length (py_str e (name s)) + length (py_str e (description s))"
  by (simp add: skill_line_def)

text \<open>
  C8, as the code has it. For a catalog that is not empty the summary is the fixed
  preamble followed by one entry for each indexed Skill, a line break and
  \<^verbatim>\<open>- `name`: description\<close>; the entry is one line when the name and the description,
  as printed, hold no line break. For the empty catalog the summary is the empty text,
  without the preamble. The bodies of the Skills do not enter it: changing them leaves
  the summary as it is, and its length is that of the preamble plus, for each Skill,
  seven and the lengths of its name and description.
\<close>

theorem metadata_prompt_shape:
  "(loaded_skills L = [] \<longrightarrow> get_skills_metadata_prompt e L = [])
   \<and> (loaded_skills L \<noteq> [] \<longrightarrow>
        get_skills_metadata_prompt e L =
          join [NL] preamble_parts
          @ concat (map (\<lambda>s. NL # skill_line e s) (map snd (loaded_skills L))))
   \<and> get_skills_metadata_prompt e
        (L\<lparr>loaded_skills := map (\<lambda>(k, s). (k, s\<lparr>content := body k s\<rparr>)) (loaded_skills L)\<rparr>)
      = get_skills_metadata_prompt e L
   \<and> (NL \<notin> set (py_str e (name s)) \<and> NL \<notin> set (py_str e (description s))
        \<longrightarrow> NL \<notin> set (skill_line e s))
   \<and> (loaded_skills L \<noteq> [] \<longrightarrow>
        length (get_skills_metadata_prompt e L) =
          length (join [NL] preamble_parts)
          + (\<Sum>s\<leftarrow>map snd (loaded_skills L).
               7 + length (py_str e (name s)) + length (py_str e (description s))))"
proof (intro conjI impI)
  assume "loaded_skills L = []"
  then show "get_skills_metadata_prompt e L = []"
    by (simp add: get_skills_metadata_prompt_def)
next
  assume ne: "loaded_skills L \<noteq> []"
  have p: "preamble_parts \<noteq> []" by (simp add: preamble_parts_def)
  from ne show shape: "get_skills_metadata_prompt e L =
          join [NL] preamble_parts
          @ concat (map (\<lambda>s. NL # skill_line e s) (map snd (loaded_skills L)))"
    by (simp add: get_skills_metadata_prompt_def join_append[OF p] comp_def)
next
  have line: "\<And>k s. skill_line e (s\<lparr>content := body k s\<rparr>) = skill_line e s"
    by (simp add: skill_line_def)
  show "get_skills_metadata_prompt e
        (L\<lparr>loaded_skills := map (\<lambda>(k, s). (k, s\<lparr>content := body k s\<rparr>)) (loaded_skills L)\<rparr>)
      = get_skills_metadata_prompt e L"
    by (simp add: get_skills_metadata_prompt_def comp_def case_prod_unfold line)
next
  assume "NL \<notin> set (py_str e (name s)) \<and> NL \<notin> set (py_str e (description s))"
  then show "NL \<notin> set (skill_line e s)"
    by (simp add: skill_line_def NL_def BQ_def)
next
  assume ne: "loaded_skills L \<noteq> []"
  have p: "preamble_parts \<noteq> []" by (simp add: preamble_parts_def)
  have "length (concat (map (\<lambda>x. NL # skill_line e (snd x)) d)) =
          (\<Sum>x\<leftarrow>d. 7 + length (py_str e (name (snd x))) + length (py_str e (description (snd x))))"
    for d :: "(yaml \<times> skill) list"
    by (induction d) (simp_all add: length_skill_line)
  with ne show "length (get_skills_metadata_prompt e L) =
          length (join [NL] preamble_parts)
          + (\<Sum>s\<leftarrow>map snd (loaded_skills L).
               7 + length (py_str e (name s)) + length (py_str e (description s)))"
    by (simp add: get_skills_metadata_prompt_def join_append[OF p] comp_def)
qed

theorem metadata_prompt_shape_witness:
  "get_skills_metadata_prompt dup_env \<lparr>skills_dir = ''/r'', loaded_skills = [(YStr ''x'', dup_second)]\<rparr>
     = join [NL] preamble_parts @ NL # skill_line dup_env dup_second
   \<and> NL \<notin> set (skill_line dup_env dup_second)
   \<and> length (get_skills_metadata_prompt dup_env
               \<lparr>skills_dir = ''/r'', loaded_skills = [(YStr ''x'', dup_second)]\<rparr>) = 205"
  using metadata_prompt_shape [of "\<lparr>skills_dir = ''/r'', loaded_skills = [(YStr ''x'', dup_second)]\<rparr>"
          dup_env "\<lambda>k s. content s" dup_second]
  by (simp add: preamble_parts_def skill_line_def py_str_def dup_second_def NL_def BQ_def)

text \<open>
  C8 as stated fails: the summary of the empty catalog is empty, it does not hold the
  preamble (which has 191 characters).
\<close>

theorem empty_catalog_prompt_is_empty:
  "get_skills_metadata_prompt (example_env [] [] []) (new_loader ''/r'') = []
   \<and> length (join [NL] preamble_parts) = 191"
  by (simp add: get_skills_metadata_prompt_def new_loader_def preamble_parts_def)

subsection \<open>The Reference Rewriter\<close>

lemma strip_prefix_ci_take:
  "strip_prefix_ci p s = Some r \<Longrightarrow> s = take (length p) s @ r \<and> length p \<le> length s"
  by (induction p s rule: strip_prefix_ci.induct) (auto split: if_splits)

lemma first_alt_cs:
  "first_alt strip_prefix alts s = Some (w, r) \<Longrightarrow> s = w @ r \<and> w \<in> set alts"
  by (induction alts) (auto simp: strip_prefix_iff split: option.splits)

lemma first_alt_ci:
  "first_alt strip_prefix_ci alts s = Some (w, r) \<Longrightarrow>
     s = w @ r \<and> (\<exists>a \<in> set alts. length w = length a \<and> strip_prefix_ci a s = Some r)"
proof (induction alts)
  case Nil
  then show ?case by simp
next
  case (Cons a as)
  show ?case
  proof (cases "strip_prefix_ci a s")
    case None
    with Cons show ?thesis by auto
  next
    case (Some r')
    with Cons.prems have w: "w = take (length a) s" and r: "r' = r" by auto
    from strip_prefix_ci_take[OF Some] w r Some show ?thesis by auto
  qed
qed

lemma re_sub_scan: "re_sub m repl t = concat (map (seg_out repl) (scan m t))"
  by (induction m repl t rule: re_sub.induct) (auto split: option.splits)

lemma scan_src:
  "suffix_matcher m \<Longrightarrow> concat (map seg_src (scan m t)) = t"
proof (induction m t rule: scan.induct)
  case (1 m)
  then show ?case by simp
next
  case (2 m c cs)
  show ?case
  proof (cases "m (c # cs)")
    case None
    with 2 show ?thesis by simp
  next
    case (Some a)
    obtain g rest where a: "a = (g, rest)" by (cases a)
    from "2.prems" Some a have "\<exists>w. w \<noteq> [] \<and> c # cs = w @ rest"
      unfolding suffix_matcher_def by blast
    then obtain w where w: "w \<noteq> []" "c # cs = w @ rest" by blast
    from w have "length (c # cs) = length w + length rest" by (metis length_append)
    with w(1) have len: "length rest \<le> length cs" by (cases w) auto
    have "Suc (length cs) - length rest = length w"
      using \<open>length (c # cs) = length w + length rest\<close> by simp
    then have tk: "take (Suc (length cs) - length rest) (c # cs) = w"
      by (simp only: w(2) take_all_iff append_eq_conv_conj) simp
    have ih: "concat (map seg_src (scan m rest)) = rest"
      using 2 Some a len by simp
    have sc: "scan m (c # cs) = Ref g w # scan m rest"
      using Some a len tk by simp
    show ?thesis unfolding sc using ih w(2) by simp
  qed
qed

lemma tw_dw: "takeWhile P xs @ dropWhile P xs = xs" by simp

lemma dir_prefix_Some:
  "dir_prefix s = Some (prefix, r) \<Longrightarrow>
     s = prefix @ r \<and> prefix \<noteq> [] \<and>
     (prefix = [BQ] \<or> (\<exists>ws. prefix = ''python'' @ ws \<and> ws \<noteq> [] \<and> (\<forall>c \<in> set ws. is_space c)
                          \<and> (r = [] \<or> \<not> is_space (hd r))))"
proof -
  assume a: "dir_prefix s = Some (prefix, r)"
  show ?thesis
  proof (cases "strip_prefix ''python'' s")
    case None
    with a show ?thesis
      by (auto simp: dir_prefix_def split: list.splits if_splits)
  next
    case (Some r0)
    then have s: "s = ''python'' @ r0" by (simp only: strip_prefix_iff)
    show ?thesis
    proof (cases "takeWhile is_space r0 = []")
      case True
      with a Some s show ?thesis
        by (auto simp: dir_prefix_def BQ_def split: list.splits if_splits)
    next
      case False
      with a Some have p: "prefix = ''python'' @ takeWhile is_space r0" and r: "r = dropWhile is_space r0"
        by (auto simp: dir_prefix_def)
      have "s = prefix @ r" unfolding p r s by simp
      moreover have "\<forall>c \<in> set (takeWhile is_space r0). is_space c"
        by (auto dest: set_takeWhileD)
      moreover have "r = [] \<or> \<not> is_space (hd r)" unfolding r
        by (metis hd_dropWhile)
      ultimately show ?thesis using False p by auto
    qed
  qed
qed

lemma match_dirs_Some:
  "match_dirs s = Some ((prefix, rel), rest) \<Longrightarrow>
     s = prefix @ rel @ rest \<and> rel \<noteq> [] \<and>
     (prefix = [BQ] \<or> (\<exists>ws. prefix = ''python'' @ ws \<and> ws \<noteq> [] \<and> (\<forall>c \<in> set ws. is_space c)))"
  unfolding match_dirs_def
  by (auto split: option.splits if_splits dest!: dir_prefix_Some first_alt_cs
        simp: strip_prefix_iff)

lemma suffix_match_dirs: "suffix_matcher match_dirs"
  unfolding suffix_matcher_def
proof (intro allI impI)
  fix s g rest assume "match_dirs s = Some (g, rest)"
  then have "match_dirs s = Some ((fst g, snd g), rest)" by simp
  from match_dirs_Some[OF this] have "s = (fst g @ snd g) @ rest" "snd g \<noteq> []" by auto
  then show "\<exists>w. w \<noteq> [] \<and> s = w @ rest" by blast
qed

lemma match_docs_Some:
  "match_docs s = Some ((verb, filename, suffix), rest) \<Longrightarrow>
     \<exists>ws. s = verb @ ws @ filename @ suffix @ rest \<and> ws \<noteq> []
          \<and> (\<exists>r. first_alt strip_prefix_ci doc_verbs s = Some (verb, r))"
proof -
  assume a: "match_docs s = Some ((verb, filename, suffix), rest)"
  then obtain r r4 ext c where
    fa: "first_alt strip_prefix_ci doc_verbs s = Some (verb, r)"
    and ws: "takeWhile is_space r \<noteq> []"
    and sp: "strip_prefix ''.'' (dropWhile is_name_char (dropWhile is_space r)) = Some r4"
    and fe: "first_alt strip_prefix_ci doc_exts r4 = Some (ext, c # rest)"
    and g: "filename = takeWhile is_name_char (dropWhile is_space r) @ ''.'' @ ext" "suffix = [c]"
    unfolding match_docs_def Let_def
    by (auto split: option.splits if_splits list.splits)
  from first_alt_ci[OF fa] have s: "s = verb @ r" by simp
  have r: "r = takeWhile is_space r @ dropWhile is_space r" by simp
  have r2: "dropWhile is_space r = takeWhile is_name_char (dropWhile is_space r)
              @ dropWhile is_name_char (dropWhile is_space r)" by simp
  from sp have dn: "dropWhile is_name_char (dropWhile is_space r) = ''.'' @ r4"
    by (simp only: strip_prefix_iff)
  from first_alt_ci[OF fe] have r4: "r4 = ext @ c # rest" by simp
  have "s = verb @ takeWhile is_space r @ filename @ suffix @ rest"
    unfolding g
    by (subst s, subst r, subst r2, subst dn, subst r4) simp
  with ws fa show ?thesis by blast
qed

lemma suffix_match_docs: "suffix_matcher match_docs"
  unfolding suffix_matcher_def
proof (intro allI impI)
  fix s g rest assume "match_docs s = Some (g, rest)"
  then have "match_docs s = Some ((fst g, fst (snd g), snd (snd g)), rest)" by simp
  from match_docs_Some[OF this] obtain ws where
    "s = (fst g @ ws @ fst (snd g) @ snd (snd g)) @ rest" "ws \<noteq> []" by auto
  then show "\<exists>w. w \<noteq> [] \<and> s = w @ rest" by blast
qed

lemma opt_bq_cases:
  "opt_bq s = (b, r) \<Longrightarrow> s = b @ r \<and> (b = [] \<and> (r = [] \<or> hd r \<noteq> BQ) \<or> b = [BQ])"
  by (auto simp: opt_bq_def split: list.splits if_splits)

lemma link_body_Some:
  "link_body s = Some ((t, q), rest) \<Longrightarrow>
     \<exists>b1 run b2. s = ''['' @ t @ '']('' @ q @ '')'' @ rest \<and> t = b1 @ run @ b2
        \<and> run \<noteq> [] \<and> (\<forall>c \<in> set run. is_text_char c)
        \<and> (b1 = [] \<or> b1 = [BQ]) \<and> (b2 = [] \<or> b2 = [BQ])
        \<and> (\<forall>c \<in> set q. is_target_char c) \<and> has_link_ext q"
proof -
  assume a: "link_body s = Some ((t, q), rest)"
  then obtain r b1 r1 b2 r2 r3 where
    sp: "strip_prefix ''['' s = Some r"
    and o1: "opt_bq r = (b1, r1)"
    and run: "takeWhile is_text_char r1 \<noteq> []"
    and o2: "opt_bq (dropWhile is_text_char r1) = (b2, r2)"
    and s2: "strip_prefix '']('' r2 = Some r3"
    and s3: "strip_prefix '')'' (dropWhile is_target_char r3) = Some rest"
    and e: "has_link_ext (takeWhile is_target_char r3)"
    and g: "t = b1 @ takeWhile is_text_char r1 @ b2" "q = takeWhile is_target_char r3"
    unfolding link_body_def
    by (auto split: option.splits if_splits prod.splits)
  from sp have s: "s = ''['' @ r" by (simp only: strip_prefix_iff)
  from opt_bq_cases[OF o1] have r: "r = b1 @ r1" and b1: "b1 = [] \<or> b1 = [BQ]" by auto
  have r1: "r1 = takeWhile is_text_char r1 @ dropWhile is_text_char r1" by simp
  from opt_bq_cases[OF o2] have d: "dropWhile is_text_char r1 = b2 @ r2" and b2: "b2 = [] \<or> b2 = [BQ]"
    by auto
  from s2 have r2: "r2 = '']('' @ r3" by (simp only: strip_prefix_iff)
  have r3: "r3 = takeWhile is_target_char r3 @ dropWhile is_target_char r3" by simp
  from s3 have d3: "dropWhile is_target_char r3 = '')'' @ rest" by (simp only: strip_prefix_iff)
  have "s = ''['' @ t @ '']('' @ q @ '')'' @ rest"
    unfolding g
    by (subst s, subst r, subst r1, subst d, subst r2, subst r3, subst d3) simp
  moreover have "\<forall>c \<in> set (takeWhile is_text_char r1). is_text_char c"
    by (auto dest: set_takeWhileD)
  moreover have "\<forall>c \<in> set q. is_target_char c"
    unfolding g by (auto dest: set_takeWhileD)
  ultimately show ?thesis using g run b1 b2 e by blast
qed

lemma match_markdown_Some:
  "match_markdown s = Some ((g1, t, q), rest) \<Longrightarrow>
     (\<exists>pre r. s = pre @ r \<and> link_body r = Some ((t, q), rest)
        \<and> (case g1 of None \<Rightarrow> pre = []
            | Some verb \<Rightarrow> \<exists>ws r0. pre = verb @ ws \<and> ws \<noteq> []
                 \<and> first_alt strip_prefix_ci link_verbs s = Some (verb, r0)))"
proof -
  assume a: "match_markdown s = Some ((g1, t, q), rest)"
  show ?thesis
  proof (cases g1)
    case None
    with a have "link_body s = Some ((t, q), rest)"
      unfolding match_markdown_def
      by (auto split: option.splits if_splits prod.splits)
    with None show ?thesis by auto
  next
    case (Some verb)
    with a obtain r0 where
      fa: "first_alt strip_prefix_ci link_verbs s = Some (verb, r0)"
      and ws: "takeWhile is_space r0 \<noteq> []"
      and lb: "link_body (dropWhile is_space r0) = Some ((t, q), rest)"
      unfolding match_markdown_def
      by (auto split: option.splits if_splits prod.splits)
    from first_alt_ci[OF fa] have "s = verb @ r0" by simp
    then have s: "s = (verb @ takeWhile is_space r0) @ dropWhile is_space r0" by simp
    have "\<exists>ws r1. verb @ takeWhile is_space r0 = verb @ ws \<and> ws \<noteq> []
                 \<and> first_alt strip_prefix_ci link_verbs s = Some (verb, r1)"
      using ws fa by (intro exI[of _ "takeWhile is_space r0"] exI[of _ r0]) simp
    with s lb show ?thesis
      unfolding Some option.case
      by (intro exI[of _ "verb @ takeWhile is_space r0"] exI[of _ "dropWhile is_space r0"]) simp
  qed
qed

lemma suffix_match_markdown: "suffix_matcher match_markdown"
  unfolding suffix_matcher_def
proof (intro allI impI)
  fix s g rest assume "match_markdown s = Some (g, rest)"
  then have "match_markdown s = Some ((fst g, fst (snd g), snd (snd g)), rest)" by simp
  from match_markdown_Some[OF this] obtain pre r where
    s: "s = pre @ r" and lb: "link_body r = Some ((fst (snd g), snd (snd g)), rest)" by auto
  from link_body_Some[OF lb] obtain w where "r = (''['' @ w) @ rest" by auto
  with s have "s = (pre @ ''['' @ w) @ rest" by simp
  then show "\<exists>w. w \<noteq> [] \<and> s = w @ rest" by blast
qed


lemma replace_dir_unresolved:
  "\<not> path_exists e (dir_target e d g) \<Longrightarrow> replace_dir_path e d g w = w"
  by (cases g) (simp add: replace_dir_path_def dir_target_def)

lemma replace_doc_unresolved:
  "\<not> path_exists e (doc_target e d g) \<Longrightarrow> replace_doc_path e d g w = w"
  by (cases g) (simp add: replace_doc_path_def doc_target_def)

lemma replace_link_unresolved:
  "\<not> path_exists e (link_target e d g) \<Longrightarrow> replace_markdown_link e d g w = w"
  by (cases g) (auto simp: replace_markdown_link_def link_target_def Let_def split: option.splits)

lemma strip_prefix_ci_lower:
  "strip_prefix_ci p s =
     (case strip_prefix (map lower_ascii p) (map lower_ascii s) of
        None \<Rightarrow> None
      | Some r \<Rightarrow> Some (drop (length p) s))"
  by (induction p s rule: strip_prefix_ci.induct) (auto split: option.splits)

lemma first_alt_ci_lower:
  "first_alt strip_prefix_ci alts s =
     (case first_alt strip_prefix (map (map lower_ascii) alts) (map lower_ascii s) of
        None \<Rightarrow> None
      | Some (w, r) \<Rightarrow> Some (take (length w) s, drop (length w) s))"
proof (induction alts)
  case Nil
  then show ?case by simp
next
  case (Cons a as)
  show ?case
  proof (cases "strip_prefix (map lower_ascii a) (map lower_ascii s)")
    case None
    with Cons show ?thesis by (simp add: strip_prefix_ci_lower)
  next
    case (Some r)
    then have "map lower_ascii s = map lower_ascii a @ r" by (simp only: strip_prefix_iff)
    then have "length a \<le> length s" by (metis length_append length_map le_add1)
    with Some show ?thesis by (simp add: strip_prefix_ci_lower take_map)
  qed
qed

lemma lower_verb:
  assumes "first_alt strip_prefix_ci alts s = Some (verb, r)"
  shows "map lower_ascii verb \<in> set (map (map lower_ascii) alts)"
proof -
  from assms obtain w r0 where
    f: "first_alt strip_prefix (map (map lower_ascii) alts) (map lower_ascii s) = Some (w, r0)"
    and v: "verb = take (length w) s"
    by (auto simp: first_alt_ci_lower split: option.splits)
  from first_alt_cs[OF f] have s: "map lower_ascii s = w @ r0" and w: "w \<in> set (map (map lower_ascii) alts)"
    by auto
  have "map lower_ascii verb = take (length w) (map lower_ascii s)" unfolding v by (simp add: take_map)
  also have "\<dots> = w" unfolding s by simp
  finally show ?thesis using w by simp
qed

lemma lower_BQ: "lower_ascii BQ = BQ"
  by (simp add: lower_ascii_def is_upper_ascii_def BQ_def)

lemma not_space_BQ: "\<not> is_space BQ"
  by (simp add: is_space_def BQ_def)

lemma lower_doc_verbs:
  "map (map lower_ascii) doc_verbs = [''see'', ''read'', ''refer to'', ''check'']"
  by (simp add: doc_verbs_def lower_ascii_def is_upper_ascii_def)

lemma lower_link_verbs:
  "map (map lower_ascii) link_verbs = [''read'', ''see'', ''check'', ''refer to'', ''load'', ''view'']"
  by code_simp

lemma first_alt_verb_again:
  assumes "map lower_ascii verb = w" and "lower_ascii c = c'"
    and "first_alt strip_prefix lalts (w @ c' # y) = Some (w, c' # y)"
    and "lalts = map (map lower_ascii) alts" and "y = map lower_ascii x"
  shows "first_alt strip_prefix_ci alts (verb @ c # x) = Some (verb, c # x)"
proof -
  have l: "length w = length verb" using assms(1) by (metis length_map)
  have "map lower_ascii (verb @ c # x) = w @ c' # y" using assms by simp
  with assms(3,4) l show ?thesis by (simp add: first_alt_ci_lower)
qed

lemma docs_verb_then:
  assumes "first_alt strip_prefix_ci doc_verbs s = Some (verb, r)" and "lower_ascii c = c"
    and "c \<noteq> CHR ''a''" and "c \<noteq> CHR ''e''" and "c \<noteq> CHR ''r''" and "c \<noteq> CHR '' ''"
  shows "first_alt strip_prefix_ci doc_verbs (verb @ c # x) = Some (verb, c # x)"
proof -
  from lower_verb[OF assms(1)] have
    "map lower_ascii verb \<in> {''see'', ''read'', ''refer to'', ''check''}"
    by (simp add: lower_doc_verbs)
  then consider "map lower_ascii verb = ''see''" | "map lower_ascii verb = ''read''"
    | "map lower_ascii verb = ''refer to''" | "map lower_ascii verb = ''check''" by blast
  then show ?thesis
  proof cases
    case 1
    show ?thesis
      by (rule first_alt_verb_again[OF 1 assms(2) _ lower_doc_verbs[symmetric] refl])
         (simp add: assms)
  next
    case 2
    show ?thesis
      by (rule first_alt_verb_again[OF 2 assms(2) _ lower_doc_verbs[symmetric] refl])
         (simp add: assms)
  next
    case 3
    show ?thesis
      by (rule first_alt_verb_again[OF 3 assms(2) _ lower_doc_verbs[symmetric] refl])
         (simp add: assms)
  next
    case 4
    show ?thesis
      by (rule first_alt_verb_again[OF 4 assms(2) _ lower_doc_verbs[symmetric] refl])
         (simp add: assms)
  qed
qed

lemma docs_not_again:
  assumes "match_docs s = Some ((verb, filename, suffix), rest)"
  shows "match_docs (verb @ BQ # x) = None"
proof -
  from match_docs_Some[OF assms] obtain r where
    fa: "first_alt strip_prefix_ci doc_verbs s = Some (verb, r)" by blast
  have "first_alt strip_prefix_ci doc_verbs (verb @ BQ # x) = Some (verb, BQ # x)"
    by (rule docs_verb_then[OF fa lower_BQ]) (simp_all add: BQ_def)
  then show ?thesis by (simp add: match_docs_def not_space_BQ)
qed

lemma takeWhile_all_then:
  "\<forall>c \<in> set ws. P c \<Longrightarrow> \<not> P c0 \<Longrightarrow> takeWhile P (ws @ c0 # x) = ws \<and> dropWhile P (ws @ c0 # x) = c0 # x"
  by (induction ws) auto

lemma dirs_not_again:
  assumes "match_dirs s = Some ((prefix, rel), rest)"
  shows "match_dirs (prefix @ CHR ''/'' # x) = None"
proof -
  have ns: "\<not> is_space (CHR ''/'')" by (simp add: is_space_def)
  have fa: "first_alt strip_prefix dir_names (CHR ''/'' # x) = None"
    by (simp add: dir_names_def)
  from match_dirs_Some[OF assms] consider "prefix = [BQ]"
    | ws where "prefix = ''python'' @ ws" "ws \<noteq> []" "\<forall>c \<in> set ws. is_space c" by blast
  then show ?thesis
  proof cases
    case 1
    have "dir_prefix (BQ # CHR ''/'' # x) = Some ([BQ], CHR ''/'' # x)"
      by (simp add: dir_prefix_def BQ_def)
    with 1 fa show ?thesis by (simp add: match_dirs_def)
  next
    case 2
    from takeWhile_all_then[OF 2(3) ns, of x] 2(2)
    have "dir_prefix (''python'' @ ws @ CHR ''/'' # x) = Some (''python'' @ ws, CHR ''/'' # x)"
      by (simp add: dir_prefix_def)
    with 2 fa show ?thesis by (simp add: match_dirs_def)
  qed
qed

lemma no_ext_after_BQ: "\<not> has_link_ext (q @ [BQ])"
  by (simp add: has_link_ext_def link_exts_def lower_ascii_def is_upper_ascii_def BQ_def)

lemma link_body_again:
  assumes run: "run \<noteq> []" "\<forall>c \<in> set run. is_text_char c"
    and b1: "b1 = [] \<or> b1 = [BQ]" and b2: "b2 = [] \<or> b2 = [BQ]"
    and q: "\<forall>c \<in> set q. is_target_char c"
  shows "link_body (''['' @ (b1 @ run @ b2) @ '']('' @ q @ '')'' @ x) =
           (if has_link_ext q then Some ((b1 @ run @ b2, q), x) else None)"
proof -
  let ?tail = "'']('' @ q @ '')'' @ x"
  have nb: "\<not> is_text_char BQ" "\<not> is_text_char (CHR '']'')" by (simp_all add: is_text_char_def)
  have hr: "hd run \<noteq> BQ" using run nb by (cases run) auto
  have o1: "opt_bq (b1 @ run @ b2 @ ?tail) = (b1, run @ b2 @ ?tail)"
    using b1 run hr by (cases run) (auto simp: opt_bq_def)
  have nt: "\<not> is_text_char (hd (b2 @ ?tail))" using b2 nb by auto
  have ne: "b2 @ ?tail \<noteq> []" by simp
  obtain c0 y where cy: "b2 @ ?tail = c0 # y" using ne by (cases "b2 @ ?tail") auto
  with nt have nc: "\<not> is_text_char c0" by simp
  from takeWhile_all_then[OF run(2) nc, of y] cy
  have tw: "takeWhile is_text_char (run @ b2 @ ?tail) = run"
    and dw: "dropWhile is_text_char (run @ b2 @ ?tail) = b2 @ ?tail" by simp_all
  have o2: "opt_bq (b2 @ ?tail) = (b2, ?tail)"
    using b2 by (auto simp: opt_bq_def BQ_def)
  have np: "\<not> is_target_char (CHR '')'')" by (simp add: is_target_char_def)
  from takeWhile_all_then[OF q np, of x]
  have tq: "takeWhile is_target_char (q @ '')'' @ x) = q"
    and dq: "dropWhile is_target_char (q @ '')'' @ x) = '')'' @ x" by simp_all
  show ?thesis
    using o1 tw dw o2 tq dq run(1)
    by (simp add: link_body_def)
qed

lemma link_body_not_again:
  assumes "link_body r = Some ((t, q), rest)" and "CHR '')'' \<notin> set a"
  shows "link_body (''['' @ t @ '']('' @ [BQ] @ a @ [BQ] @ '')'' @ x) = None"
proof -
  from link_body_Some[OF assms(1)] obtain b1 run b2 where
    t: "t = b1 @ run @ b2" and run: "run \<noteq> []" "\<forall>c \<in> set run. is_text_char c"
    and b: "b1 = [] \<or> b1 = [BQ]" "b2 = [] \<or> b2 = [BQ]" by blast
  have q: "\<forall>c \<in> set ((BQ # a) @ [BQ]). is_target_char c"
    using assms(2) by (auto simp: is_target_char_def BQ_def)
  from link_body_again[OF run b q, of x] no_ext_after_BQ[of "BQ # a"]
  show ?thesis unfolding t by simp
qed

lemma no_verb_at_bracket: "first_alt strip_prefix_ci link_verbs (CHR ''['' # y) = None"
  by (simp add: first_alt_ci_lower lower_link_verbs lower_ascii_def is_upper_ascii_def)

lemma link_verb_then_bracket:
  assumes "first_alt strip_prefix_ci link_verbs s = Some (verb, r)"
  shows "first_alt strip_prefix_ci link_verbs (verb @ CHR ''['' # x) = Some (verb, CHR ''['' # x)
         \<and> strip_prefix ''['' (verb @ CHR ''['' # x) = None"
proof -
  have lb: "lower_ascii (CHR ''['') = CHR ''[''" by (simp add: lower_ascii_def is_upper_ascii_def)
  from lower_verb[OF assms] have
    "map lower_ascii verb \<in> {''read'', ''see'', ''check'', ''refer to'', ''load'', ''view''}"
    by (simp add: lower_link_verbs)
  then consider "map lower_ascii verb = ''read''" | "map lower_ascii verb = ''see''"
    | "map lower_ascii verb = ''check''" | "map lower_ascii verb = ''refer to''"
    | "map lower_ascii verb = ''load''" | "map lower_ascii verb = ''view''" by blast
  then show ?thesis
  proof cases
    case 1
    have "first_alt strip_prefix_ci link_verbs (verb @ CHR ''['' # x) = Some (verb, CHR ''['' # x)"
      by (rule first_alt_verb_again[OF 1 lb _ lower_link_verbs[symmetric] refl]) simp
    moreover from 1 lb have "strip_prefix ''['' (verb @ CHR ''['' # x) = None" by (cases verb) auto
    ultimately show ?thesis by simp
  next
    case 2
    have "first_alt strip_prefix_ci link_verbs (verb @ CHR ''['' # x) = Some (verb, CHR ''['' # x)"
      by (rule first_alt_verb_again[OF 2 lb _ lower_link_verbs[symmetric] refl]) simp
    moreover from 2 lb have "strip_prefix ''['' (verb @ CHR ''['' # x) = None" by (cases verb) auto
    ultimately show ?thesis by simp
  next
    case 3
    have "first_alt strip_prefix_ci link_verbs (verb @ CHR ''['' # x) = Some (verb, CHR ''['' # x)"
      by (rule first_alt_verb_again[OF 3 lb _ lower_link_verbs[symmetric] refl]) simp
    moreover from 3 lb have "strip_prefix ''['' (verb @ CHR ''['' # x) = None" by (cases verb) auto
    ultimately show ?thesis by simp
  next
    case 4
    have "first_alt strip_prefix_ci link_verbs (verb @ CHR ''['' # x) = Some (verb, CHR ''['' # x)"
      by (rule first_alt_verb_again[OF 4 lb _ lower_link_verbs[symmetric] refl]) simp
    moreover from 4 lb have "strip_prefix ''['' (verb @ CHR ''['' # x) = None" by (cases verb) auto
    ultimately show ?thesis by simp
  next
    case 5
    have "first_alt strip_prefix_ci link_verbs (verb @ CHR ''['' # x) = Some (verb, CHR ''['' # x)"
      by (rule first_alt_verb_again[OF 5 lb _ lower_link_verbs[symmetric] refl]) simp
    moreover from 5 lb have "strip_prefix ''['' (verb @ CHR ''['' # x) = None" by (cases verb) auto
    ultimately show ?thesis by simp
  next
    case 6
    have "first_alt strip_prefix_ci link_verbs (verb @ CHR ''['' # x) = Some (verb, CHR ''['' # x)"
      by (rule first_alt_verb_again[OF 6 lb _ lower_link_verbs[symmetric] refl]) simp
    moreover from 6 lb have "strip_prefix ''['' (verb @ CHR ''['' # x) = None" by (cases verb) auto
    ultimately show ?thesis by simp
  qed
qed

lemma links_not_again:
  assumes m: "match_markdown s = Some ((g1, t, q), rest)" and a: "CHR '')'' \<notin> set a"
  shows "match_markdown ((case g1 of None \<Rightarrow> [] | Some v \<Rightarrow> v)
            @ ''['' @ t @ '']('' @ [BQ] @ a @ [BQ] @ '')'' @ x) = None"
proof -
  let ?link = "''['' @ t @ '']('' @ [BQ] @ a @ [BQ] @ '')'' @ x"
  from match_markdown_Some[OF m] obtain pre r where
    lb: "link_body r = Some ((t, q), rest)"
    and g: "case g1 of None \<Rightarrow> pre = []
            | Some verb \<Rightarrow> \<exists>ws r0. pre = verb @ ws \<and> ws \<noteq> []
                 \<and> first_alt strip_prefix_ci link_verbs s = Some (verb, r0)"
    by blast
  have nl: "link_body ?link = None" by (rule link_body_not_again[OF lb a])
  have nsb: "\<not> is_space (CHR ''['')" by (simp add: is_space_def)
  show ?thesis
  proof (cases g1)
    case None
    have "first_alt strip_prefix_ci link_verbs ?link = None"
      using no_verb_at_bracket by simp
    with None nl show ?thesis by (simp add: match_markdown_def)
  next
    case (Some verb)
    with g obtain r0 where fa: "first_alt strip_prefix_ci link_verbs s = Some (verb, r0)" by auto
    obtain y where y: "?link = CHR ''['' # y" by simp
    from link_verb_then_bracket[OF fa, of y]
    have f2: "first_alt strip_prefix_ci link_verbs (verb @ ?link) = Some (verb, ?link)"
      and sp: "strip_prefix ''['' (verb @ ?link) = None" unfolding y by simp_all
    have "link_body (verb @ ?link) = None" using sp by (simp add: link_body_def)
    with f2 nsb show ?thesis unfolding Some option.case
      by (simp add: match_markdown_def)
  qed
qed

lemma re_sub_fixed:
  assumes sm: "suffix_matcher m"
    and un: "\<And>g w. Ref g w \<in> set (scan m u) \<Longrightarrow> repl g w = w"
  shows "re_sub m repl u = u"
proof -
  have "map (seg_out repl) (scan m u) = map seg_src (scan m u)"
  proof (rule map_cong[OF refl])
    fix s assume h: "s \<in> set (scan m u)"
    show "seg_out repl s = seg_src s"
    proof (cases s)
      case (Copied c)
      then show ?thesis by simp
    next
      case (Ref g w)
      with h un[of g w] show ?thesis by simp
    qed
  qed
  then show ?thesis by (simp only: re_sub_scan scan_src[OF sm])
qed

lemma replace_dir_resolved:
  "path_exists e (dir_target e d g) \<Longrightarrow> replace_dir_path e d g w = fst g @ dir_target e d g"
  by (cases g) (simp add: replace_dir_path_def dir_target_def)

lemma replace_doc_resolved:
  "path_exists e (doc_target e d g) \<Longrightarrow>
     replace_doc_path e d g w = fst g @ [BQ] @ doc_target e d g @ [BQ] @ usage_hint @ snd (snd g)"
  by (cases g) (simp add: replace_doc_path_def doc_target_def)

lemma replace_link_resolved:
  "path_exists e (link_target e d g) \<Longrightarrow>
     replace_markdown_link e d g w =
       (case fst g of None \<Rightarrow> [] | Some v \<Rightarrow> v) @ ''['' @ fst (snd g) @ '']('' @ [BQ]
       @ link_target e d g @ [BQ] @ '')'' @ usage_hint"
  by (cases g) (auto simp: replace_markdown_link_def link_target_def Let_def split: option.splits)

text \<open>
  C3, as the code has it. A reference that has been rewritten is not a reference again:
  the text a pass puts in place of a resolved reference, whatever follows it, is not
  matched by the pattern of that pass (for pattern 1 when the absolute path starts with
  \<open>/\<close>, for pattern 3 when it holds no \<open>)\<close>). And a run of the Rewriter over a text in which
  no reference found by the passes resolves leaves the text unchanged. Idempotence itself
  does not hold: a second run can find a reference that the first run did not see.
\<close>

theorem rewritten_reference_is_no_reference:
  "(match_dirs s = Some (g1, rest) \<and> path_exists e (dir_target e d g1)
      \<and> dir_target e d g1 = CHR ''/'' # p
      \<longrightarrow> match_dirs (replace_dir_path e d g1 w @ x) = None)
   \<and> (match_docs s = Some (g2, rest) \<and> path_exists e (doc_target e d g2)
      \<longrightarrow> match_docs (replace_doc_path e d g2 w @ x) = None)
   \<and> (match_markdown s = Some (g3, rest) \<and> path_exists e (link_target e d g3)
      \<and> CHR '')'' \<notin> set (link_target e d g3)
      \<longrightarrow> match_markdown (replace_markdown_link e d g3 w @ x) = None)
   \<and> ((\<forall>g w. Ref g w \<in> set (scan match_dirs u) \<longrightarrow> \<not> path_exists e (dir_target e d g))
      \<and> (\<forall>g w. Ref g w \<in> set (scan match_docs u) \<longrightarrow> \<not> path_exists e (doc_target e d g))
      \<and> (\<forall>g w. Ref g w \<in> set (scan match_markdown u) \<longrightarrow> \<not> path_exists e (link_target e d g))
      \<longrightarrow> process_skill_paths e d u = u)"
proof (intro conjI impI)
  assume a: "match_dirs s = Some (g1, rest) \<and> path_exists e (dir_target e d g1)
      \<and> dir_target e d g1 = CHR ''/'' # p"
  then have m: "match_dirs s = Some ((fst g1, snd g1), rest)" by simp
  from a have ex: "path_exists e (dir_target e d g1)" and sl: "dir_target e d g1 = CHR ''/'' # p"
    by blast+
  have "replace_dir_path e d g1 w @ x = fst g1 @ CHR ''/'' # (p @ x)"
    unfolding replace_dir_resolved[OF ex] sl by simp
  with dirs_not_again[OF m, of "p @ x"] show "match_dirs (replace_dir_path e d g1 w @ x) = None"
    by simp
next
  assume a: "match_docs s = Some (g2, rest) \<and> path_exists e (doc_target e d g2)"
  then have m: "match_docs s = Some ((fst g2, fst (snd g2), snd (snd g2)), rest)" by simp
  from a have ex: "path_exists e (doc_target e d g2)" by simp
  have "replace_doc_path e d g2 w @ x
      = fst g2 @ BQ # (doc_target e d g2 @ [BQ] @ usage_hint @ snd (snd g2) @ x)"
    unfolding replace_doc_resolved[OF ex] by simp
  with docs_not_again[OF m] show "match_docs (replace_doc_path e d g2 w @ x) = None"
    by simp
next
  assume a: "match_markdown s = Some (g3, rest) \<and> path_exists e (link_target e d g3)
      \<and> CHR '')'' \<notin> set (link_target e d g3)"
  then have m: "match_markdown s = Some ((fst g3, fst (snd g3), snd (snd g3)), rest)" by simp
  from a have np: "CHR '')'' \<notin> set (link_target e d g3)" by simp
  from a have ex: "path_exists e (link_target e d g3)" by simp
  have "replace_markdown_link e d g3 w @ x =
       (case fst g3 of None \<Rightarrow> [] | Some v \<Rightarrow> v) @ ''['' @ fst (snd g3) @ '']('' @ [BQ]
       @ link_target e d g3 @ [BQ] @ '')'' @ (usage_hint @ x)"
    unfolding replace_link_resolved[OF ex] by simp
  with links_not_again[OF m np, of "usage_hint @ x"]
  show "match_markdown (replace_markdown_link e d g3 w @ x) = None" by simp
next
  assume a: "(\<forall>g w. Ref g w \<in> set (scan match_dirs u) \<longrightarrow> \<not> path_exists e (dir_target e d g))
      \<and> (\<forall>g w. Ref g w \<in> set (scan match_docs u) \<longrightarrow> \<not> path_exists e (doc_target e d g))
      \<and> (\<forall>g w. Ref g w \<in> set (scan match_markdown u) \<longrightarrow> \<not> path_exists e (link_target e d g))"
  from a have u1: "\<And>g w. Ref g w \<in> set (scan match_dirs u) \<Longrightarrow> \<not> path_exists e (dir_target e d g)"
    and u2: "\<And>g w. Ref g w \<in> set (scan match_docs u) \<Longrightarrow> \<not> path_exists e (doc_target e d g)"
    and u3: "\<And>g w. Ref g w \<in> set (scan match_markdown u) \<Longrightarrow> \<not> path_exists e (link_target e d g)"
    by blast+
  have 1: "pass_dirs e d u = u" unfolding pass_dirs_def
    by (rule re_sub_fixed[OF suffix_match_dirs]) (rule replace_dir_unresolved[OF u1])
  have 2: "pass_docs e d u = u" unfolding pass_docs_def
    by (rule re_sub_fixed[OF suffix_match_docs]) (rule replace_doc_unresolved[OF u2])
  have 3: "pass_markdown e d u = u" unfolding pass_markdown_def
    by (rule re_sub_fixed[OF suffix_match_markdown]) (rule replace_link_unresolved[OF u3])
  show "process_skill_paths e d u = u" by (simp add: process_skill_paths_def 1 2 3)
qed

text \<open>
  C3 as stated fails. In \<^verbatim>\<open>`scripts/python scripts/run.py`\<close> the first run matches
  \<^verbatim>\<open>`scripts/python\<close> and goes on after it, so \<^verbatim>\<open>python scripts/run.py\<close> is not
  seen; once the first path is absolute the backquote no longer starts a match, and the
  second run rewrites \<^verbatim>\<open>python scripts/run.py\<close>.
\<close>

theorem rewriter_not_idempotent:
  "process_skill_paths rw_env ''/s'' overlap_text
     = [BQ] @ ''/s/scripts/python scripts/run.py'' @ [BQ]
   \<and> process_skill_paths rw_env ''/s'' (process_skill_paths rw_env ''/s'' overlap_text)
     = [BQ] @ ''/s/scripts/python /s/scripts/run.py'' @ [BQ]"
  unfolding overlap_text_def by code_simp

lemma rw_exists_run: "path_exists rw_env ''/s/scripts/run.py''"
  and rw_exists_a: "path_exists rw_env ''/s/a.md''"
  and rw_no_notes: "\<not> path_exists rw_env ''/s/notes.md''"
  and rw_join: "path_join rw_env d r = d @ ''/'' @ r"
  by (simp_all add: rw_env_def example_env_def)

lemma rw_m1: "match_dirs ''python scripts/run.py'' = Some ((''python '', ''scripts/run.py''), [])"
  by code_simp

lemma rw_m2: "match_docs ''see a.md.'' = Some ((''see'', ''a.md'', ''.''), [])"
  by code_simp

lemma rw_m3: "match_markdown ''Read [x](./a.md)'' = Some ((Some ''Read'', ''x'', ''./a.md''), [])"
  by code_simp

lemma rw_scan1:
  "scan match_dirs ''Run python /s/scripts/run.py then see notes.md.''
     = map Copied ''Run python /s/scripts/run.py then see notes.md.''"
  by code_simp

lemma rw_scan2:
  "scan match_docs ''Run python /s/scripts/run.py then see notes.md.''
     = map Copied ''Run python /s/scripts/run.py then '' @ [Ref (''see'', ''notes.md'', ''.'') ''see notes.md.'']"
  by code_simp

lemma rw_scan3:
  "scan match_markdown ''Run python /s/scripts/run.py then see notes.md.''
     = map Copied ''Run python /s/scripts/run.py then see notes.md.''"
  by code_simp

theorem rewritten_reference_is_no_reference_witness:
  "match_dirs (replace_dir_path rw_env ''/s'' (''python '', ''scripts/run.py'') ''python scripts/run.py''
                 @ '' now'') = None
   \<and> match_docs (replace_doc_path rw_env ''/s'' (''see'', ''a.md'', ''.'') ''see a.md.'' @ '' Then'') = None
   \<and> match_markdown (replace_markdown_link rw_env ''/s'' (Some ''Read'', ''x'', ''./a.md'')
                       ''Read [x](./a.md)'' @ '' first'') = None
   \<and> process_skill_paths rw_env ''/s'' ''Run python /s/scripts/run.py then see notes.md.''
       = ''Run python /s/scripts/run.py then see notes.md.''"
proof (intro conjI)
  have t: "dir_target rw_env ''/s'' (''python '', ''scripts/run.py'') = CHR ''/'' # ''s/scripts/run.py''"
    by (simp add: dir_target_def rw_join)
  from rw_m1 rw_exists_run t
  show "match_dirs (replace_dir_path rw_env ''/s'' (''python '', ''scripts/run.py'') ''python scripts/run.py''
                 @ '' now'') = None"
    using rewritten_reference_is_no_reference
      [where s = "''python scripts/run.py''" and ?g1.0 = "(''python '', ''scripts/run.py'')"
         and rest = "[]" and e = rw_env and d = "''/s''" and p = "''s/scripts/run.py''"
         and w = "''python scripts/run.py''" and x = "'' now''"]
    by simp
next
  have t: "doc_target rw_env ''/s'' (''see'', ''a.md'', ''.'') = ''/s/a.md''"
    by (simp add: doc_target_def rw_join)
  from rw_m2 rw_exists_a t
  show "match_docs (replace_doc_path rw_env ''/s'' (''see'', ''a.md'', ''.'') ''see a.md.'' @ '' Then'') = None"
    using rewritten_reference_is_no_reference
      [where s = "''see a.md.''" and ?g2.0 = "(''see'', ''a.md'', ''.'')"
         and rest = "[]" and e = rw_env and d = "''/s''"
         and w = "''see a.md.''" and x = "'' Then''"]
    by simp
next
  have t: "link_target rw_env ''/s'' (Some ''Read'', ''x'', ''./a.md'') = ''/s/a.md''"
    by (simp add: link_target_def rw_join)
  from rw_m3 rw_exists_a t
  show "match_markdown (replace_markdown_link rw_env ''/s'' (Some ''Read'', ''x'', ''./a.md'')
                       ''Read [x](./a.md)'' @ '' first'') = None"
    using rewritten_reference_is_no_reference
      [where s = "''Read [x](./a.md)''" and ?g3.0 = "(Some ''Read'', ''x'', ''./a.md'')"
         and rest = "[]" and e = rw_env and d = "''/s''"
         and w = "''Read [x](./a.md)''" and x = "'' first''"]
    by simp
next
  let ?u = "''Run python /s/scripts/run.py then see notes.md.''"
  have 1: "\<forall>g w. Ref g w \<in> set (scan match_dirs ?u) \<longrightarrow> \<not> path_exists rw_env (dir_target rw_env ''/s'' g)"
    unfolding rw_scan1 by auto
  have 2: "\<forall>g w. Ref g w \<in> set (scan match_docs ?u) \<longrightarrow> \<not> path_exists rw_env (doc_target rw_env ''/s'' g)"
    unfolding rw_scan2 using rw_no_notes by (auto simp: doc_target_def rw_join)
  have 3: "\<forall>g w. Ref g w \<in> set (scan match_markdown ?u) \<longrightarrow> \<not> path_exists rw_env (link_target rw_env ''/s'' g)"
    unfolding rw_scan3 by auto
  from 1 2 3 show "process_skill_paths rw_env ''/s'' ?u = ?u"
    using rewritten_reference_is_no_reference [where e = rw_env and d = "''/s''" and u = ?u]
    by blast
qed

subsection \<open>The Reference Rewriter, pass by pass\<close>









lemma space_lower: "is_space c \<Longrightarrow> lower_ascii c = c"
  by (auto simp: lower_ascii_def is_space_def is_upper_ascii_def Let_def)























end
